theory Spec2Isabelle
  imports Main "HOL-Library.Sublist"
begin

section \<open>The leaderboard models of ctfsite\<close>

text \<open>
  A shallow embedding of \<^verbatim>\<open>ctfsite/leaderboard/models.py\<close>. The Django models
  become records, one table per model becomes a list of rows in insertion order, and
  the database is a record of the four tables together with the auto-increment
  counters of their primary keys. Every method takes the database and returns the new
  one; an exception is the left injection of a sum, and a method decorated with
  \<^verbatim>\<open>transaction.atomic\<close> that raises leaves the database as it was (the caller keeps
  the old value).

  Not modelled: the \<^verbatim>\<open>created_at\<close> columns (a default timestamp that no method reads),
  the \<^verbatim>\<open>max_length\<close> of the character fields (not validated by \<^verbatim>\<open>objects.create\<close>), and
  the table of users, which belongs to \<^verbatim>\<open>django.contrib.auth\<close>: a user is its primary
  key. A team object handed to a method is a saved one (it carries a primary key).
\<close>

subsection \<open>Rows and tables\<close>

type_synonym user = nat

record team =
  team_id :: nat
  team_name :: string

record team_member =
  tm_id :: nat
  tm_team :: nat
  tm_user :: user

record level =
  level_id :: nat
  level_name :: string
  level_answer :: string

record submission =
  sub_id :: nat
  sub_team :: nat
  sub_level :: nat

record db =
  teams :: "team list"
  team_members :: "team_member list"
  levels :: "level list"
  submissions :: "submission list"
  team_seq :: nat
  member_seq :: nat
  level_seq :: nat
  submission_seq :: nat

datatype error =
    ValueError string
  | IntegrityError string
  | MultipleObjectsReturned
  | TeamDoesNotExist

definition empty_db :: db where
  "empty_db = \<lparr>teams = [], team_members = [], levels = [], submissions = [],
     team_seq = 1, member_seq = 1, level_seq = 1, submission_seq = 1\<rparr>"

subsection \<open>Module level\<close>

definition MAX_MEMBERS_PER_TEAM :: nat where
  "MAX_MEMBERS_PER_TEAM = 4"

text \<open>
  \<^verbatim>\<open>encoded\<close> is \<^verbatim>\<open>hashlib.sha1(answer_attempt.encode()).hexdigest()\<close>. The hash is the
  standard library's; it is the parameter \<open>sha1_hexdigest\<close> of every function that
  reaches it, so each result below holds for whatever function it is.
\<close>

definition encoded :: "(string \<Rightarrow> string) \<Rightarrow> string \<Rightarrow> string" where
  "encoded sha1_hexdigest answer_attempt = sha1_hexdigest answer_attempt"

subsection \<open>The object managers: queries, inserts, deletes\<close>

text \<open>\<^verbatim>\<open>TeamMember.objects.filter(team=self)\<close>\<close>

definition members_of :: "db \<Rightarrow> team \<Rightarrow> team_member list" where
  "members_of d self = filter (\<lambda>m. tm_team m = team_id self) (team_members d)"

text \<open>\<^verbatim>\<open>Submission.objects.filter(team=self)\<close>\<close>

definition submissions_of :: "db \<Rightarrow> team \<Rightarrow> submission list" where
  "submissions_of d self = filter (\<lambda>s. sub_team s = team_id self) (submissions d)"

text \<open>
  \<^verbatim>\<open>Team.objects.create(name=name)\<close>: the model declares no constraint on a team.
\<close>

definition Team_create :: "db \<Rightarrow> string \<Rightarrow> team \<times> db" where
  "Team_create d name =
     (let t = \<lparr>team_id = team_seq d, team_name = name\<rparr>
      in (t, d\<lparr>teams := teams d @ [t], team_seq := Suc (team_seq d)\<rparr>))"

text \<open>
  \<^verbatim>\<open>Level.objects.create(name=name, answer=answer)\<close>: of the two character fields only
  \<^verbatim>\<open>name\<close> is declared \<^verbatim>\<open>unique=True\<close>.
\<close>

definition Level_create :: "db \<Rightarrow> string \<Rightarrow> string \<Rightarrow> error + level \<times> db" where
  "Level_create d name answer =
     (if name \<in> set (map level_name (levels d))
      then Inl (IntegrityError ''UNIQUE constraint failed: leaderboard_level.name'')
      else
        let l = \<lparr>level_id = level_seq d, level_name = name, level_answer = answer\<rparr>
        in Inr (l, d\<lparr>levels := levels d @ [l], level_seq := Suc (level_seq d)\<rparr>))"

text \<open>
  \<^verbatim>\<open>TeamMember.objects.create(team=self, user=user)\<close>: the constraint \<^verbatim>\<open>uk_user\<close> is on
  the user alone, and the row refers to a team that has to exist.
\<close>

definition TeamMember_create :: "db \<Rightarrow> team \<Rightarrow> user \<Rightarrow> error + db" where
  "TeamMember_create d t u =
     (if u \<in> set (map tm_user (team_members d))
      then Inl (IntegrityError ''UNIQUE constraint failed: leaderboard_teammember.user_id'')
      else if team_id t \<notin> set (map team_id (teams d))
      then Inl (IntegrityError ''FOREIGN KEY constraint failed'')
      else Inr (d\<lparr>team_members := team_members d @
                     [\<lparr>tm_id = member_seq d, tm_team = team_id t, tm_user = u\<rparr>],
                   member_seq := Suc (member_seq d)\<rparr>))"

text \<open>
  \<^verbatim>\<open>Submission.objects.create(team=self, level=level)\<close>: the constraint
  \<^verbatim>\<open>uk_team_level\<close> is on the pair, and both foreign keys have to exist.
\<close>

definition Submission_create :: "db \<Rightarrow> team \<Rightarrow> level \<Rightarrow> error + db" where
  "Submission_create d t l =
     (if (team_id t, level_id l) \<in> set (map (\<lambda>s. (sub_team s, sub_level s)) (submissions d))
      then Inl (IntegrityError
        ''UNIQUE constraint failed: leaderboard_submission.team_id, leaderboard_submission.level_id'')
      else if team_id t \<notin> set (map team_id (teams d)) \<or>
              level_id l \<notin> set (map level_id (levels d))
      then Inl (IntegrityError ''FOREIGN KEY constraint failed'')
      else Inr (d\<lparr>submissions := submissions d @
                     [\<lparr>sub_id = submission_seq d, sub_team = team_id t, sub_level = level_id l\<rparr>],
                   submission_seq := Suc (submission_seq d)\<rparr>))"

text \<open>
  \<^verbatim>\<open>self.delete()\<close> on a team: both foreign keys to a team are \<^verbatim>\<open>on_delete=CASCADE\<close>,
  so the team's members and its submissions go with it.
\<close>

definition Team_delete :: "db \<Rightarrow> team \<Rightarrow> db" where
  "Team_delete d self =
     d\<lparr>teams := filter (\<lambda>t. team_id t \<noteq> team_id self) (teams d),
       team_members := filter (\<lambda>m. tm_team m \<noteq> team_id self) (team_members d),
       submissions := filter (\<lambda>s. sub_team s \<noteq> team_id self) (submissions d)\<rparr>"

text \<open>\<^verbatim>\<open>TeamMember.objects.filter(team=self, user=user).delete()\<close>\<close>

definition TeamMember_delete :: "db \<Rightarrow> team \<Rightarrow> user \<Rightarrow> db" where
  "TeamMember_delete d self u =
     d\<lparr>team_members :=
         filter (\<lambda>m. \<not> (tm_team m = team_id self \<and> tm_user m = u)) (team_members d)\<rparr>"

subsection \<open>find_team\<close>

text \<open>
  \<^verbatim>\<open>TeamMember.objects.get(user=user).team\<close>: \<^verbatim>\<open>get\<close> raises \<^verbatim>\<open>DoesNotExist\<close> on no
  row (caught: the result is \<^verbatim>\<open>None\<close>) and \<^verbatim>\<open>MultipleObjectsReturned\<close> on several (not
  caught); \<^verbatim>\<open>.team\<close> fetches the team by its primary key.
\<close>

definition find_team :: "db \<Rightarrow> user \<Rightarrow> error + team option" where
  "find_team d u =
     (case filter (\<lambda>m. tm_user m = u) (team_members d) of
        [] \<Rightarrow> Inr None
      | [m] \<Rightarrow> (case filter (\<lambda>t. team_id t = tm_team m) (teams d) of
                  [] \<Rightarrow> Inl TeamDoesNotExist
                | t # _ \<Rightarrow> Inr (Some t))
      | _ \<Rightarrow> Inl MultipleObjectsReturned)"

subsection \<open>Level\<close>

definition is_correct :: "(string \<Rightarrow> string) \<Rightarrow> level \<Rightarrow> string \<Rightarrow> bool" where
  "is_correct sha1_hexdigest self answer_attempt =
     (level_answer self = encoded sha1_hexdigest answer_attempt)"

subsection \<open>Team\<close>

definition is_accepting_members :: "db \<Rightarrow> team \<Rightarrow> bool" where
  "is_accepting_members d self = (length (members_of d self) < MAX_MEMBERS_PER_TEAM)"

definition is_empty :: "db \<Rightarrow> team \<Rightarrow> bool" where
  "is_empty d self = (length (members_of d self) = 0)"

text \<open>
  The message of \<^verbatim>\<open>add_member\<close> is the f-string
  \<^verbatim>\<open>f"Team '{self.name}' is not accepting members"\<close>; \<open>CHR 0x27\<close> is the single quote.
\<close>

definition add_member :: "db \<Rightarrow> team \<Rightarrow> user \<Rightarrow> error + db" where
  "add_member d self u =
     (if \<not> is_accepting_members d self
      then Inl (ValueError
        (''Team '' @ [CHR 0x27] @ team_name self @ [CHR 0x27] @ '' is not accepting members''))
      else TeamMember_create d self u)"

text \<open>
  \<^verbatim>\<open>remove_member\<close> has no \<^verbatim>\<open>raise\<close>, and neither delete raises on a saved team:
  the result is a database, not a sum.
\<close>

definition remove_member :: "db \<Rightarrow> team \<Rightarrow> user \<Rightarrow> db" where
  "remove_member d self u =
     (let d1 = TeamMember_delete d self u
      in if is_empty d1 self then Team_delete d1 self else d1)"

definition next_level_index :: "db \<Rightarrow> team \<Rightarrow> nat" where
  "next_level_index d self = length (submissions_of d self)"

text \<open>
  \<^verbatim>\<open>Level.objects.all()[next_level_index]\<close>: the model gives no ordering, and the rows
  come in the order of their primary keys, which is the order of insertion. The index is
  below the count when the row is read, so the read is in range.
\<close>

definition next_level :: "db \<Rightarrow> team \<Rightarrow> level option" where
  "next_level d self =
     (let i = next_level_index d self
      in if i \<ge> length (levels d) then None else Some (levels d ! i))"

definition can_submit :: "db \<Rightarrow> team \<Rightarrow> bool" where
  "can_submit d self = (\<not> is_empty d self \<and> next_level d self \<noteq> None)"

definition submit_attempt ::
  "(string \<Rightarrow> string) \<Rightarrow> db \<Rightarrow> team \<Rightarrow> string \<Rightarrow> error + bool \<times> db" where
  "submit_attempt sha1_hexdigest d self answer_attempt =
     (if \<not> can_submit d self
      then Inl (ValueError ''Illegal state: team cannot submit solutions'')
      else case next_level d self of
        None \<Rightarrow> Inl (ValueError ''Illegal state: there is no next level'')
      | Some l \<Rightarrow>
          if \<not> is_correct sha1_hexdigest l answer_attempt then Inr (False, d)
          else (case Submission_create d self l of
                  Inl e \<Rightarrow> Inl e
                | Inr d' \<Rightarrow> Inr (True, d')))"

subsection \<open>Sequences of calls\<close>

text \<open>
  The calls that write to the database. A call that raises changes nothing, and the
  next call sees the database as it was.
\<close>

datatype op =
    CreateTeam string
  | CreateLevel string string
  | AddMember team user
  | RemoveMember team user
  | SubmitAttempt team string

fun exec :: "(string \<Rightarrow> string) \<Rightarrow> db \<Rightarrow> op \<Rightarrow> db" where
  "exec h d (CreateTeam name) = snd (Team_create d name)"
| "exec h d (CreateLevel name answer) =
     (case Level_create d name answer of Inl e \<Rightarrow> d | Inr (l, d') \<Rightarrow> d')"
| "exec h d (AddMember t u) =
     (case add_member d t u of Inl e \<Rightarrow> d | Inr d' \<Rightarrow> d')"
| "exec h d (RemoveMember t u) = remove_member d t u"
| "exec h d (SubmitAttempt t a) =
     (case submit_attempt h d t a of Inl e \<Rightarrow> d | Inr (b, d') \<Rightarrow> d')"

definition run :: "(string \<Rightarrow> string) \<Rightarrow> db \<Rightarrow> op list \<Rightarrow> db" where
  "run h d ops = foldl (exec h) d ops"

subsection \<open>What the constraints and the methods maintain\<close>

text \<open>
  The declared constraints (primary keys, \<^verbatim>\<open>uk_user\<close>, the foreign keys to a team), the
  freshness of the auto-increment counters of teams and levels, and the shape of the ledger that
  \<^verbatim>\<open>submit_attempt\<close> builds: the levels a team has solved are, in the order it solved
  them, the first levels of the catalogue.
\<close>

definition keys_ok :: "db \<Rightarrow> bool" where
  "keys_ok d = (distinct (map team_id (teams d)) \<and> distinct (map level_id (levels d)) \<and>
     list_all (\<lambda>t. team_id t < team_seq d) (teams d) \<and>
     list_all (\<lambda>l. level_id l < level_seq d) (levels d))"

definition uk_user :: "db \<Rightarrow> bool" where
  "uk_user d = distinct (map tm_user (team_members d))"

definition fk_ok :: "db \<Rightarrow> bool" where
  "fk_ok d = (list_all (\<lambda>m. tm_team m \<in> set (map team_id (teams d))) (team_members d) \<and>
     list_all (\<lambda>s. sub_team s \<in> set (map team_id (teams d))) (submissions d))"

definition ledger_ok :: "db \<Rightarrow> bool" where
  "ledger_ok d = list_all (\<lambda>s.
       let solved = filter (\<lambda>x. sub_team x = sub_team s) (submissions d)
       in map sub_level solved = take (length solved) (map level_id (levels d)))
     (submissions d)"

definition db_inv :: "db \<Rightarrow> bool" where
  "db_inv d = (keys_ok d \<and> uk_user d \<and> fk_ok d \<and> ledger_ok d)"

text \<open>
  The two \<^verbatim>\<open>ValueError\<close>s of \<^verbatim>\<open>submit_attempt\<close> are told from the one of
  \<^verbatim>\<open>add_member\<close> by their message.
\<close>

definition illegal_state_error :: "error \<Rightarrow> bool" where
  "illegal_state_error e =
     (case e of ValueError msg \<Rightarrow> prefix ''Illegal state'' msg | _ \<Rightarrow> False)"

text \<open>
  The teams a user belongs to: the teams of the table that a member row links to the user.
\<close>

definition teams_of_user :: "db \<Rightarrow> user \<Rightarrow> team list" where
  "teams_of_user d u =
     filter (\<lambda>t. list_ex (\<lambda>m. tm_user m = u \<and> tm_team m = team_id t) (team_members d)) (teams d)"

subsection \<open>Concrete databases\<close>

text \<open>
  The scenarios of the test suite, built by the calls themselves. A closed instance needs
  a concrete function in the place of the digest; list reversal stands for it.
\<close>

definition red :: team where
  "red = \<lparr>team_id = 1, team_name = ''red''\<rparr>"

definition trio :: db where
  "trio = run rev empty_db
     [CreateTeam ''red'', AddMember red 11, AddMember red 12, AddMember red 13]"

definition quartet :: db where
  "quartet = run rev trio [AddMember red 14]"

definition L1 :: level where
  "L1 = \<lparr>level_id = 1, level_name = ''L1'', level_answer = encoded rev ''flag1''\<rparr>"

definition one_level :: db where
  "one_level = run rev empty_db
     [CreateLevel ''L1'' (encoded rev ''flag1''), CreateTeam ''red'', AddMember red 11]"

definition flag_captured :: db where
  "flag_captured = run rev one_level [SubmitAttempt red ''flag1'']"

definition blue :: team where
  "blue = \<lparr>team_id = 2, team_name = ''blue''\<rparr>"

definition two_teams :: db where
  "two_teams = run rev empty_db
     [CreateTeam ''red'', CreateTeam ''blue'', AddMember red 11, AddMember blue 12]"

definition duo_solved :: db where
  "duo_solved = run rev empty_db
     [CreateLevel ''L1'' (encoded rev ''flag1''), CreateTeam ''red'', AddMember red 11,
      AddMember red 12, SubmitAttempt red ''flag1'']"

definition newcomers :: db where
  "newcomers = run rev empty_db [CreateTeam ''red'']"

definition two_levels_no_member :: db where
  "two_levels_no_member = run rev empty_db
     [CreateLevel ''L1'' (encoded rev ''flag1''), CreateLevel ''L2'' (encoded rev ''flag2''),
      CreateTeam ''red'']"

section \<open>Membership: the capacity of a team\<close>

lemma members_of_exec_AddMember:
  "length (members_of d t) \<le> MAX_MEMBERS_PER_TEAM \<Longrightarrow>
   length (members_of (exec h d (AddMember t' u)) t) \<le> MAX_MEMBERS_PER_TEAM"
  by (auto simp: add_member_def TeamMember_create_def is_accepting_members_def members_of_def
      split: if_splits)

lemma length_filter_filter_le:
  "length (filter P (filter Q xs)) \<le> length (filter P xs)"
  by (induction xs) auto

lemma members_of_remove_member_le:
  "length (members_of (remove_member d t' u) t) \<le> length (members_of d t)"
proof -
  let ?P = "\<lambda>m. tm_team m = team_id t"
  let ?ms = "team_members (TeamMember_delete d t' u)"
  have a: "length (filter ?P ?ms) \<le> length (filter ?P (team_members d))"
    by (simp add: TeamMember_delete_def length_filter_filter_le del: filter_filter)
  have "length (filter ?P (filter (\<lambda>m. tm_team m \<noteq> team_id t') ?ms)) \<le> length (filter ?P ?ms)"
    by (rule length_filter_filter_le)
  then have b: "length (filter ?P (filter (\<lambda>m. tm_team m \<noteq> team_id t') ?ms))
      \<le> length (filter ?P (team_members d))"
    using a by (rule le_trans)
  show ?thesis
    using a b
    by (simp add: remove_member_def Let_def Team_delete_def members_of_def del: filter_filter)
qed

lemma team_members_submit_attempt:
  "submit_attempt h d t a = Inr (b, d') \<Longrightarrow> team_members d' = team_members d"
  by (auto simp: submit_attempt_def Submission_create_def split: if_splits option.splits sum.splits)

lemma members_of_exec_le:
  assumes "\<forall>t. length (members_of d t) \<le> MAX_MEMBERS_PER_TEAM"
  shows "length (members_of (exec h d x) t) \<le> MAX_MEMBERS_PER_TEAM"
proof (cases x)
  case (CreateTeam n)
  then show ?thesis using assms by (simp add: Team_create_def Let_def members_of_def)
next
  case (CreateLevel n a)
  then show ?thesis using assms
    by (auto simp: Level_create_def Let_def members_of_def split: if_splits)
next
  case (AddMember t' u)
  then show ?thesis using assms members_of_exec_AddMember by simp
next
  case (RemoveMember t' u)
  then show ?thesis using assms members_of_remove_member_le [of d t' u t]
    by (metis exec.simps(4) le_trans)
next
  case (SubmitAttempt t' a)
  then show ?thesis using assms
    by (auto simp: members_of_def split: sum.splits dest!: team_members_submit_attempt)
qed

lemma members_of_run_le:
  "\<forall>t. length (members_of d t) \<le> MAX_MEMBERS_PER_TEAM \<Longrightarrow>
   length (members_of (run h d ops) t) \<le> MAX_MEMBERS_PER_TEAM"
proof (induction ops arbitrary: d t)
  case Nil
  then show ?case by (simp add: run_def)
next
  case (Cons x xs)
  have "\<forall>t. length (members_of (exec h d x) t) \<le> MAX_MEMBERS_PER_TEAM"
    using Cons.prems members_of_exec_le by blast
  from Cons.IH [OF this] show ?case by (simp add: run_def)
qed

lemma members_of_empty_db: "members_of empty_db t = []"
  by (simp add: members_of_def empty_db_def)

lemma add_member_full:
  "MAX_MEMBERS_PER_TEAM \<le> length (members_of d t) \<Longrightarrow>
   add_member d t u = Inl (ValueError
     (''Team '' @ [CHR 0x27] @ team_name t @ [CHR 0x27] @ '' is not accepting members''))"
  by (simp add: add_member_def is_accepting_members_def)

lemma add_member_accepting:
  "length (members_of d t) < MAX_MEMBERS_PER_TEAM \<Longrightarrow>
   add_member d t u = TeamMember_create d t u"
  by (simp add: add_member_def is_accepting_members_def)

text \<open>
  Claim C1. A team never has more than \<open>MAX_MEMBERS_PER_TEAM\<close> members: not in any
  database that the calls build from the empty one, and not after any sequence of
  \<^verbatim>\<open>add_member\<close> calls on a database in which no team had more. On a team that has
  that many members, \<^verbatim>\<open>add_member\<close> raises the \<^verbatim>\<open>ValueError\<close> whose message carries
  the team's name, and the database stays as it was; on a team with fewer, the call is the
  insert of the member row.
\<close>

theorem add_member_capacity:
  "length (members_of (run h empty_db ops) t) \<le> MAX_MEMBERS_PER_TEAM \<and>
   ((\<forall>t. length (members_of d t) \<le> MAX_MEMBERS_PER_TEAM) \<longrightarrow>
      length (members_of (run h d (map (\<lambda>(t, u). AddMember t u) calls)) t) \<le> MAX_MEMBERS_PER_TEAM) \<and>
   (MAX_MEMBERS_PER_TEAM \<le> length (members_of d t) \<longrightarrow>
      add_member d t u = Inl (ValueError
        (''Team '' @ [CHR 0x27] @ team_name t @ [CHR 0x27] @ '' is not accepting members'')) \<and>
      exec h d (AddMember t u) = d) \<and>
   (length (members_of d t) < MAX_MEMBERS_PER_TEAM \<longrightarrow>
      add_member d t u = TeamMember_create d t u)"
proof (intro conjI impI)
  show "length (members_of (run h empty_db ops) t) \<le> MAX_MEMBERS_PER_TEAM"
    by (rule members_of_run_le) (simp add: members_of_empty_db)
next
  assume "\<forall>t. length (members_of d t) \<le> MAX_MEMBERS_PER_TEAM"
  then show "length (members_of (run h d (map (\<lambda>(t, u). AddMember t u) calls)) t)
      \<le> MAX_MEMBERS_PER_TEAM"
    by (rule members_of_run_le)
next
  assume full: "MAX_MEMBERS_PER_TEAM \<le> length (members_of d t)"
  then show "add_member d t u = Inl (ValueError
        (''Team '' @ [CHR 0x27] @ team_name t @ [CHR 0x27] @ '' is not accepting members''))"
    by (rule add_member_full)
  from full show "exec h d (AddMember t u) = d"
    by (simp add: add_member_full)
next
  assume "length (members_of d t) < MAX_MEMBERS_PER_TEAM"
  then show "add_member d t u = TeamMember_create d t u"
    by (rule add_member_accepting)
qed

text \<open>
  Scenario A of the specification at work for C1: a team of four refuses a fifth member by
  name, and a team of three passes the fourth on to the insert.
\<close>

theorem add_member_capacity_witness:
  "MAX_MEMBERS_PER_TEAM \<le> length (members_of quartet red) \<and>
   add_member quartet red 15 = Inl (ValueError
     (''Team '' @ [CHR 0x27] @ ''red'' @ [CHR 0x27] @ '' is not accepting members'')) \<and>
   exec rev quartet (AddMember red 15) = quartet \<and>
   length (members_of trio red) < MAX_MEMBERS_PER_TEAM \<and>
   add_member trio red 14 = TeamMember_create trio red 14 \<and>
   length (members_of (run rev trio (map (\<lambda>(t, u). AddMember t u) [(red, 14), (red, 15)])) red)
     \<le> MAX_MEMBERS_PER_TEAM"
proof -
  have full: "MAX_MEMBERS_PER_TEAM \<le> length (members_of quartet red)"
    by code_simp
  have room: "length (members_of trio red) < MAX_MEMBERS_PER_TEAM"
    by code_simp
  have name: "team_name red = ''red''"
    by (simp add: red_def)
  from full add_member_capacity [where d = quartet and t = red and u = 15 and h = rev]
  have a: "add_member quartet red 15 = Inl (ValueError
      (''Team '' @ [CHR 0x27] @ ''red'' @ [CHR 0x27] @ '' is not accepting members'')) \<and>
      exec rev quartet (AddMember red 15) = quartet"
    unfolding name by blast
  from room add_member_capacity [where d = trio and t = red and u = 14]
  have b: "add_member trio red 14 = TeamMember_create trio red 14"
    by blast
  have c: "length (members_of (run rev trio (map (\<lambda>(t, u). AddMember t u) [(red, 14), (red, 15)])) red)
      \<le> MAX_MEMBERS_PER_TEAM"
    unfolding trio_def run_def foldl_append [symmetric]
    using add_member_capacity [where h = rev and t = red and ops = "[CreateTeam ''red'',
      AddMember red 11, AddMember red 12, AddMember red 13] @
      map (\<lambda>(t, u). AddMember t u) [(red, 14), (red, 15)]"]
    unfolding run_def by blast
  from full a room b c show ?thesis by blast
qed

section \<open>Membership: leaving a team\<close>

lemma TeamMember_delete_fields:
  "teams (TeamMember_delete d t u) = teams d"
  "levels (TeamMember_delete d t u) = levels d"
  "submissions (TeamMember_delete d t u) = submissions d"
  by (simp_all add: TeamMember_delete_def)

lemma TeamMember_delete_absent:
  "u \<notin> set (map tm_user (members_of d t)) \<Longrightarrow> TeamMember_delete d t u = d"
proof -
  have "u \<notin> set (map tm_user (filter (\<lambda>m. tm_team m = tid) ms)) \<Longrightarrow>
      filter (\<lambda>m. \<not> (tm_team m = tid \<and> tm_user m = u)) ms = ms" for tid and ms :: "team_member list"
    by (induction ms) (auto split: if_splits)
  then show "u \<notin> set (map tm_user (members_of d t)) \<Longrightarrow> TeamMember_delete d t u = d"
    by (simp add: TeamMember_delete_def members_of_def del: filter_filter)
qed

lemma TeamMember_delete_row_gone:
  "list_all (\<lambda>m. \<not> (tm_team m = team_id t \<and> tm_user m = u))
     (team_members (TeamMember_delete d t u))"
  by (simp add: TeamMember_delete_def list_all_iff)

lemma TeamMember_delete_other_teams:
  "filter (\<lambda>m. tm_team m \<noteq> team_id t) (team_members (TeamMember_delete d t u))
     = filter (\<lambda>m. tm_team m \<noteq> team_id t) (team_members d)"
proof -
  have "filter (\<lambda>m. tm_team m \<noteq> tid) (filter (\<lambda>m. \<not> (tm_team m = tid \<and> tm_user m = u)) ms)
      = filter (\<lambda>m. tm_team m \<noteq> tid) ms" for tid and ms :: "team_member list"
    by (induction ms) auto
  then show ?thesis
    by (simp add: TeamMember_delete_def del: filter_filter)
qed

lemma TeamMember_delete_other_users:
  "filter (\<lambda>m. tm_user m \<noteq> u) (members_of (TeamMember_delete d t u) t)
     = filter (\<lambda>m. tm_user m \<noteq> u) (members_of d t)"
proof -
  have "filter (\<lambda>m. tm_user m \<noteq> u) (filter (\<lambda>m. tm_team m = tid)
        (filter (\<lambda>m. \<not> (tm_team m = tid \<and> tm_user m = u)) ms))
      = filter (\<lambda>m. tm_user m \<noteq> u) (filter (\<lambda>m. tm_team m = tid) ms)"
    for tid and ms :: "team_member list"
    by (induction ms) auto
  then show ?thesis
    by (simp add: TeamMember_delete_def members_of_def del: filter_filter)
qed

lemma is_empty_TeamMember_delete:
  "is_empty (TeamMember_delete d t u) t = list_all (\<lambda>m. tm_user m = u) (members_of d t)"
proof -
  have "filter (\<lambda>m. tm_team m = tid) (filter (\<lambda>m. \<not> (tm_team m = tid \<and> tm_user m = u)) ms) = []
      \<longleftrightarrow> list_all (\<lambda>m. tm_user m = u) (filter (\<lambda>m. tm_team m = tid) ms)"
    for tid and ms :: "team_member list"
    by (induction ms) auto
  then show ?thesis
    by (simp add: is_empty_def members_of_def TeamMember_delete_def del: filter_filter)
qed

lemma remove_member_last:
  "list_all (\<lambda>m. tm_user m = u) (members_of d t) \<Longrightarrow>
   remove_member d t u = Team_delete (TeamMember_delete d t u) t"
  by (simp add: remove_member_def Let_def is_empty_TeamMember_delete)

lemma remove_member_not_last:
  "\<not> list_all (\<lambda>m. tm_user m = u) (members_of d t) \<Longrightarrow>
   remove_member d t u = TeamMember_delete d t u"
  by (simp add: remove_member_def Let_def is_empty_TeamMember_delete)

lemma Team_delete_gone:
  "team_id t \<notin> set (map team_id (teams (Team_delete d t)))"
  "submissions_of (Team_delete d t) t = []"
  "members_of (Team_delete d t) t = []"
  by (auto simp: Team_delete_def submissions_of_def members_of_def filter_empty_conv)

lemma Team_delete_other_teams:
  "filter (\<lambda>m. tm_team m \<noteq> team_id t) (team_members (Team_delete d t))
     = filter (\<lambda>m. tm_team m \<noteq> team_id t) (team_members d)"
  "filter (\<lambda>s. sub_team s \<noteq> team_id t) (submissions (Team_delete d t))
     = filter (\<lambda>s. sub_team s \<noteq> team_id t) (submissions d)"
  "filter (\<lambda>x. team_id x \<noteq> team_id t) (teams (Team_delete d t))
     = filter (\<lambda>x. team_id x \<noteq> team_id t) (teams d)"
  "levels (Team_delete d t) = levels d"
  by (simp_all add: Team_delete_def)

lemma Team_delete_no_members:
  "members_of d t = [] \<Longrightarrow> team_members (Team_delete d t) = team_members d"
proof -
  have "filter (\<lambda>m. tm_team m = tid) ms = [] \<Longrightarrow> filter (\<lambda>m. tm_team m \<noteq> tid) ms = ms"
    for tid and ms :: "team_member list"
    by (induction ms) (auto split: if_splits)
  then show "members_of d t = [] \<Longrightarrow> team_members (Team_delete d t) = team_members d"
    by (simp add: Team_delete_def members_of_def)
qed

lemma remove_member_row_gone:
  "list_all (\<lambda>m. \<not> (tm_team m = team_id t \<and> tm_user m = u))
     (team_members (remove_member d t u))"
proof (cases "list_all (\<lambda>m. tm_user m = u) (members_of d t)")
  case True
  have "set (team_members (Team_delete (TeamMember_delete d t u) t))
      \<subseteq> set (team_members (TeamMember_delete d t u))"
    by (simp add: Team_delete_def)
  with TeamMember_delete_row_gone [where t = t and d = d and u = u] True show ?thesis
    by (auto simp: remove_member_last list_all_iff)
next
  case False
  with TeamMember_delete_row_gone [where t = t and d = d and u = u] show ?thesis
    by (simp add: remove_member_not_last)
qed

lemma remove_member_other_teams:
  "filter (\<lambda>m. tm_team m \<noteq> team_id t) (team_members (remove_member d t u))
     = filter (\<lambda>m. tm_team m \<noteq> team_id t) (team_members d)"
  "filter (\<lambda>s. sub_team s \<noteq> team_id t) (submissions (remove_member d t u))
     = filter (\<lambda>s. sub_team s \<noteq> team_id t) (submissions d)"
  "filter (\<lambda>x. team_id x \<noteq> team_id t) (teams (remove_member d t u))
     = filter (\<lambda>x. team_id x \<noteq> team_id t) (teams d)"
  "levels (remove_member d t u) = levels d"
  by (cases "list_all (\<lambda>m. tm_user m = u) (members_of d t)";
      simp add: remove_member_last remove_member_not_last Team_delete_other_teams
        TeamMember_delete_other_teams TeamMember_delete_fields)+

lemma remove_member_absent_members:
  assumes "u \<notin> set (map tm_user (members_of d t))"
  shows "team_members (remove_member d t u) = team_members d"
proof (cases "list_all (\<lambda>m. tm_user m = u) (members_of d t)")
  case True
  with assms have "members_of d t = []"
    by (cases "members_of d t") auto
  with True assms show ?thesis
    by (simp add: remove_member_last TeamMember_delete_absent Team_delete_no_members)
next
  case False
  with assms show ?thesis
    by (simp add: remove_member_not_last TeamMember_delete_absent)
qed

lemma remove_member_empty_team:
  assumes "is_empty d t"
  shows "remove_member d t u = Team_delete d t"
proof -
  from assms have "members_of d t = []"
    by (simp add: is_empty_def)
  then show ?thesis
    by (simp add: remove_member_last TeamMember_delete_absent)
qed

text \<open>
  Claim C8. After \<^verbatim>\<open>remove_member\<close> no row links the team and the user; where there was
  none, the member table is as before, and the call returns without an exception in every
  case (the model has no error to return). If every member row of the team was the user's,
  the team goes: the result is the cascade delete, its row, its members and its submissions
  are gone. If another member remains, nothing but the user's row changes: the team, the
  submissions and the rows of the other members stay. In both cases the rows of every
  other team and the levels are untouched.
\<close>

theorem remove_member_effect:
  "list_all (\<lambda>m. \<not> (tm_team m = team_id t \<and> tm_user m = u))
     (team_members (remove_member d t u)) \<and>
   (u \<notin> set (map tm_user (members_of d t)) \<longrightarrow>
      team_members (remove_member d t u) = team_members d) \<and>
   (list_all (\<lambda>m. tm_user m = u) (members_of d t) \<longrightarrow>
      remove_member d t u = Team_delete (TeamMember_delete d t u) t \<and>
      team_id t \<notin> set (map team_id (teams (remove_member d t u))) \<and>
      submissions_of (remove_member d t u) t = [] \<and>
      members_of (remove_member d t u) t = []) \<and>
   (\<not> list_all (\<lambda>m. tm_user m = u) (members_of d t) \<longrightarrow>
      remove_member d t u = TeamMember_delete d t u \<and>
      teams (remove_member d t u) = teams d \<and>
      submissions (remove_member d t u) = submissions d \<and>
      filter (\<lambda>m. tm_user m \<noteq> u) (members_of (remove_member d t u) t)
        = filter (\<lambda>m. tm_user m \<noteq> u) (members_of d t)) \<and>
   filter (\<lambda>m. tm_team m \<noteq> team_id t) (team_members (remove_member d t u))
     = filter (\<lambda>m. tm_team m \<noteq> team_id t) (team_members d) \<and>
   filter (\<lambda>s. sub_team s \<noteq> team_id t) (submissions (remove_member d t u))
     = filter (\<lambda>s. sub_team s \<noteq> team_id t) (submissions d) \<and>
   filter (\<lambda>x. team_id x \<noteq> team_id t) (teams (remove_member d t u))
     = filter (\<lambda>x. team_id x \<noteq> team_id t) (teams d) \<and>
   levels (remove_member d t u) = levels d"
proof -
  have gone: "list_all (\<lambda>m. \<not> (tm_team m = team_id t \<and> tm_user m = u))
      (team_members (remove_member d t u))"
    by (rule remove_member_row_gone)
  have absent: "u \<notin> set (map tm_user (members_of d t)) \<longrightarrow>
      team_members (remove_member d t u) = team_members d"
    by (simp add: remove_member_absent_members)
  have last: "list_all (\<lambda>m. tm_user m = u) (members_of d t) \<longrightarrow>
      remove_member d t u = Team_delete (TeamMember_delete d t u) t \<and>
      team_id t \<notin> set (map team_id (teams (remove_member d t u))) \<and>
      submissions_of (remove_member d t u) t = [] \<and>
      members_of (remove_member d t u) t = []"
    using Team_delete_gone by (simp add: remove_member_last)
  have others: "\<not> list_all (\<lambda>m. tm_user m = u) (members_of d t) \<longrightarrow>
      remove_member d t u = TeamMember_delete d t u \<and>
      teams (remove_member d t u) = teams d \<and>
      submissions (remove_member d t u) = submissions d \<and>
      filter (\<lambda>m. tm_user m \<noteq> u) (members_of (remove_member d t u) t)
        = filter (\<lambda>m. tm_user m \<noteq> u) (members_of d t)"
    by (simp add: remove_member_not_last TeamMember_delete_fields TeamMember_delete_other_users)
  from gone absent last others remove_member_other_teams [where t = t and d = d and u = u] show ?thesis
    by blast
qed

text \<open>
  C8 at work: of three members one leaves and the team stays; a stranger leaves and no row
  changes; the only member of a team that has solved a level leaves, and the team and its
  submission are gone.
\<close>

theorem remove_member_effect_witness:
  "\<not> list_all (\<lambda>m. tm_user m = 11) (members_of trio red) \<and>
   teams (remove_member trio red 11) = teams trio \<and>
   submissions (remove_member trio red 11) = submissions trio \<and>
   map tm_user (team_members (remove_member trio red 11)) = [12, 13] \<and>
   99 \<notin> set (map tm_user (members_of trio red)) \<and>
   team_members (remove_member trio red 99) = team_members trio \<and>
   list_all (\<lambda>m. tm_user m = 11) (members_of flag_captured red) \<and>
   submissions flag_captured \<noteq> [] \<and>
   teams (remove_member flag_captured red 11) = [] \<and>
   submissions_of (remove_member flag_captured red 11) red = []"
proof -
  have h1: "\<not> list_all (\<lambda>m. tm_user m = 11) (members_of trio red)"
    by code_simp
  have h2: "99 \<notin> set (map tm_user (members_of trio red))"
    by code_simp
  have h3: "list_all (\<lambda>m. tm_user m = 11) (members_of flag_captured red)"
    by code_simp
  from h1 remove_member_effect [where d = trio and t = red and u = 11]
  have a: "remove_member trio red 11 = TeamMember_delete trio red 11"
    and a': "teams (remove_member trio red 11) = teams trio"
      "submissions (remove_member trio red 11) = submissions trio"
    by blast+
  have e1: "map tm_user (team_members (remove_member trio red 11)) = [12, 13]"
    unfolding a by code_simp
  from h2 remove_member_effect [where d = trio and t = red and u = 99]
  have b: "team_members (remove_member trio red 99) = team_members trio"
    by blast
  from h3 remove_member_effect [where d = flag_captured and t = red and u = 11]
  have c: "remove_member flag_captured red 11
        = Team_delete (TeamMember_delete flag_captured red 11) red"
    and c': "submissions_of (remove_member flag_captured red 11) red = []"
    by blast+
  have e2: "submissions flag_captured \<noteq> []"
    by code_simp
  have e3: "teams (remove_member flag_captured red 11) = []"
    unfolding c by code_simp
  from h1 a' e1 h2 b h3 e2 e3 c' show ?thesis by blast
qed

text \<open>
  Claim C9. On a team that has no member, \<^verbatim>\<open>remove_member\<close> deletes the team for any
  user: no member row is removed, and the emptiness test that follows the removal holds.
\<close>

theorem remove_member_of_empty_team:
  "is_empty d t \<Longrightarrow>
   remove_member d t u = Team_delete d t \<and>
   team_id t \<notin> set (map team_id (teams (remove_member d t u))) \<and>
   team_members (remove_member d t u) = team_members d"
proof -
  assume e: "is_empty d t"
  then have a: "remove_member d t u = Team_delete d t"
    by (rule remove_member_empty_team)
  from e have "u \<notin> set (map tm_user (members_of d t))"
    by (simp add: is_empty_def)
  then have "team_members (remove_member d t u) = team_members d"
    by (rule remove_member_absent_members)
  with a Team_delete_gone(1) [where t = t and d = d] show ?thesis by simp
qed

text \<open>C9 at work: a team just created, with no member yet, is deleted by the call.\<close>

theorem remove_member_of_empty_team_witness:
  "is_empty newcomers red \<and>
   teams newcomers = [red] \<and>
   teams (remove_member newcomers red 11) = [] \<and>
   team_members (remove_member newcomers red 11) = team_members newcomers"
proof -
  have e: "is_empty newcomers red"
    by code_simp
  have t: "teams newcomers = [red]"
    by code_simp
  from e remove_member_of_empty_team [where d = newcomers and t = red and u = 11]
  have r: "remove_member newcomers red 11 = Team_delete newcomers red"
    and m: "team_members (remove_member newcomers red 11) = team_members newcomers"
    by blast+
  have "teams (remove_member newcomers red 11) = []"
    unfolding r by code_simp
  with e t m show ?thesis by blast
qed

section \<open>add_member: which error\<close>

text \<open>
  Claim C10. The capacity check comes before the insert: on a full team, a user who already
  has a member row gets the \<^verbatim>\<open>ValueError\<close> that names the team, never the
  \<^verbatim>\<open>IntegrityError\<close> that the insert alone would have raised.
\<close>

theorem add_member_capacity_first:
  "MAX_MEMBERS_PER_TEAM \<le> length (members_of d t) \<and> u \<in> set (map tm_user (team_members d)) \<longrightarrow>
   add_member d t u = Inl (ValueError
     (''Team '' @ [CHR 0x27] @ team_name t @ [CHR 0x27] @ '' is not accepting members'')) \<and>
   (\<forall>msg. add_member d t u \<noteq> Inl (IntegrityError msg)) \<and>
   TeamMember_create d t u
     = Inl (IntegrityError ''UNIQUE constraint failed: leaderboard_teammember.user_id'')"
  by (simp add: add_member_full TeamMember_create_def)

text \<open>C10 at work: a member of a full team is added to it again.\<close>

theorem add_member_capacity_first_witness:
  "MAX_MEMBERS_PER_TEAM \<le> length (members_of quartet red) \<and>
   11 \<in> set (map tm_user (team_members quartet)) \<and>
   add_member quartet red 11 = Inl (ValueError
     (''Team '' @ [CHR 0x27] @ ''red'' @ [CHR 0x27] @ '' is not accepting members'')) \<and>
   TeamMember_create quartet red 11
     = Inl (IntegrityError ''UNIQUE constraint failed: leaderboard_teammember.user_id'')"
proof -
  have full: "MAX_MEMBERS_PER_TEAM \<le> length (members_of quartet red)"
    by code_simp
  have member: "11 \<in> set (map tm_user (team_members quartet))"
    by code_simp
  have name: "team_name red = ''red''"
    by (simp add: red_def)
  from full member add_member_capacity_first [where d = quartet and t = red and u = 11]
  show ?thesis unfolding name by blast
qed

section \<open>Submitting\<close>

lemma can_submit_next_level:
  "can_submit d t \<Longrightarrow> \<exists>l. next_level d t = Some l"
  by (auto simp: can_submit_def)

lemma submit_attempt_cannot:
  "\<not> can_submit d t \<Longrightarrow>
   submit_attempt h d t a = Inl (ValueError ''Illegal state: team cannot submit solutions'')"
  by (simp add: submit_attempt_def)

lemma submit_attempt_incorrect:
  "can_submit d t \<Longrightarrow> next_level d t = Some l \<Longrightarrow> \<not> is_correct h l a \<Longrightarrow>
   submit_attempt h d t a = Inr (False, d)"
  by (simp add: submit_attempt_def)

lemma submit_attempt_correct:
  "can_submit d t \<Longrightarrow> next_level d t = Some l \<Longrightarrow> is_correct h l a \<Longrightarrow>
   submit_attempt h d t a =
     (case Submission_create d t l of Inl e \<Rightarrow> Inl e | Inr d' \<Rightarrow> Inr (True, d'))"
  by (simp add: submit_attempt_def)

lemma Submission_create_error:
  "Submission_create d t l = Inl e \<Longrightarrow> \<not> illegal_state_error e"
  by (auto simp: Submission_create_def illegal_state_error_def split: if_splits)

lemma submit_attempt_can:
  assumes "can_submit d t" and "submit_attempt h d t a = Inl e"
  shows "\<not> illegal_state_error e"
proof -
  from assms(1) obtain l where l: "next_level d t = Some l"
    using can_submit_next_level by blast
  show ?thesis
  proof (cases "is_correct h l a")
    case True
    with assms l have "Submission_create d t l = Inl e"
      by (simp add: submit_attempt_correct split: sum.splits)
    then show ?thesis by (rule Submission_create_error)
  next
    case False
    with assms l show ?thesis by (simp add: submit_attempt_incorrect)
  qed
qed

lemma next_level_None:
  "next_level d t = None \<longleftrightarrow> length (levels d) \<le> next_level_index d t"
  by (simp add: next_level_def Let_def)

text \<open>
  Claim C4. \<^verbatim>\<open>submit_attempt\<close> raises an illegal-state error exactly when
  \<^verbatim>\<open>can_submit\<close> is false, and then nothing is written; \<^verbatim>\<open>can_submit\<close> is: the team
  is not empty and has a next level. So a team with no member cannot submit, whatever levels
  there are, and neither can a team that has as many submissions as there are levels.
\<close>

theorem submit_attempt_illegal_state:
  "((\<exists>e. submit_attempt h d t a = Inl e \<and> illegal_state_error e) \<longleftrightarrow> \<not> can_submit d t) \<and>
   (\<not> can_submit d t \<longrightarrow> exec h d (SubmitAttempt t a) = d) \<and>
   (can_submit d t \<longleftrightarrow> \<not> is_empty d t \<and> next_level d t \<noteq> None) \<and>
   (is_empty d t \<longrightarrow> \<not> can_submit d t \<and>
      submit_attempt h d t a = Inl (ValueError ''Illegal state: team cannot submit solutions'')) \<and>
   (length (levels d) \<le> next_level_index d t \<longrightarrow> \<not> can_submit d t \<and>
      submit_attempt h d t a = Inl (ValueError ''Illegal state: team cannot submit solutions''))"
proof -
  have ill: "illegal_state_error (ValueError ''Illegal state: team cannot submit solutions'')"
    by (simp add: illegal_state_error_def)
  have iff: "(\<exists>e. submit_attempt h d t a = Inl e \<and> illegal_state_error e) \<longleftrightarrow> \<not> can_submit d t"
    using ill submit_attempt_cannot [of d t h a] submit_attempt_can [of d t h a] by metis
  have nowrite: "\<not> can_submit d t \<longrightarrow> exec h d (SubmitAttempt t a) = d"
    by (simp add: submit_attempt_cannot)
  have def: "can_submit d t \<longleftrightarrow> \<not> is_empty d t \<and> next_level d t \<noteq> None"
    by (simp add: can_submit_def)
  have empty: "is_empty d t \<longrightarrow> \<not> can_submit d t \<and>
      submit_attempt h d t a = Inl (ValueError ''Illegal state: team cannot submit solutions'')"
    by (simp add: can_submit_def submit_attempt_cannot)
  have finished: "length (levels d) \<le> next_level_index d t \<longrightarrow> \<not> can_submit d t \<and>
      submit_attempt h d t a = Inl (ValueError ''Illegal state: team cannot submit solutions'')"
    by (simp add: can_submit_def submit_attempt_cannot next_level_None)
  from iff nowrite def empty finished show ?thesis by blast
qed

text \<open>
  C4 at work: a team with no member and two unsolved levels, a team that has solved the
  only level, and a team that may submit (a wrong answer returns false, no error).
\<close>

theorem submit_attempt_illegal_state_witness:
  "is_empty two_levels_no_member red \<and>
   next_level_index two_levels_no_member red < length (levels two_levels_no_member) \<and>
   submit_attempt rev two_levels_no_member red ''flag1''
     = Inl (ValueError ''Illegal state: team cannot submit solutions'') \<and>
   \<not> is_empty flag_captured red \<and>
   length (levels flag_captured) \<le> next_level_index flag_captured red \<and>
   submit_attempt rev flag_captured red ''flag1''
     = Inl (ValueError ''Illegal state: team cannot submit solutions'') \<and>
   exec rev flag_captured (SubmitAttempt red ''flag1'') = flag_captured \<and>
   can_submit one_level red \<and>
   submit_attempt rev one_level red ''wrong'' = Inr (False, one_level)"
proof -
  have e: "is_empty two_levels_no_member red"
    by code_simp
  have u: "next_level_index two_levels_no_member red < length (levels two_levels_no_member)"
    by code_simp
  have m: "\<not> is_empty flag_captured red"
    by code_simp
  have s: "length (levels flag_captured) \<le> next_level_index flag_captured red"
    by code_simp
  have c: "can_submit one_level red"
    by code_simp
  have w: "submit_attempt rev one_level red ''wrong'' = Inr (False, one_level)"
    by code_simp
  from e submit_attempt_illegal_state [where d = two_levels_no_member and t = red and a = "''flag1''"
      and h = rev]
  have a: "submit_attempt rev two_levels_no_member red ''flag1''
      = Inl (ValueError ''Illegal state: team cannot submit solutions'')"
    by blast
  from s submit_attempt_illegal_state [where d = flag_captured and t = red and a = "''flag1''"
      and h = rev]
  have b: "submit_attempt rev flag_captured red ''flag1''
      = Inl (ValueError ''Illegal state: team cannot submit solutions'') \<and>
      exec rev flag_captured (SubmitAttempt red ''flag1'') = flag_captured"
    by blast
  from e u m s c w a b show ?thesis by blast
qed

lemma run_incorrect_attempts:
  "can_submit d t \<Longrightarrow> next_level d t = Some l \<Longrightarrow> list_all (\<lambda>a. \<not> is_correct h l a) attempts \<Longrightarrow>
   run h d (map (SubmitAttempt t) attempts) = d"
  by (induction attempts) (simp_all add: run_def submit_attempt_incorrect)

text \<open>
  Claim C6. For a team that may submit, an attempt that is not the answer of the next level
  returns false and leaves the database as it was; so does any number of such attempts in
  a row: the index of the next level and the submissions stay, and every one of them
  returns false.
\<close>

theorem submit_attempt_rejection:
  "(can_submit d t \<and> next_level d t = Some l \<and> \<not> is_correct h l a \<longrightarrow>
      submit_attempt h d t a = Inr (False, d) \<and> exec h d (SubmitAttempt t a) = d) \<and>
   (can_submit d t \<and> next_level d t = Some l \<and> list_all (\<lambda>a. \<not> is_correct h l a) attempts \<longrightarrow>
      run h d (map (SubmitAttempt t) attempts) = d \<and>
      next_level_index (run h d (map (SubmitAttempt t) attempts)) t = next_level_index d t \<and>
      submissions (run h d (map (SubmitAttempt t) attempts)) = submissions d \<and>
      list_all (\<lambda>a. submit_attempt h (run h d (map (SubmitAttempt t) attempts)) t a = Inr (False, d))
        attempts)"
proof (intro conjI impI)
  assume "can_submit d t \<and> next_level d t = Some l \<and> \<not> is_correct h l a"
  then show "submit_attempt h d t a = Inr (False, d)" "exec h d (SubmitAttempt t a) = d"
    by (simp_all add: submit_attempt_incorrect)
next
  assume a: "can_submit d t \<and> next_level d t = Some l \<and> list_all (\<lambda>a. \<not> is_correct h l a) attempts"
  then have same: "run h d (map (SubmitAttempt t) attempts) = d"
    by (simp add: run_incorrect_attempts)
  then show "run h d (map (SubmitAttempt t) attempts) = d"
    "next_level_index (run h d (map (SubmitAttempt t) attempts)) t = next_level_index d t"
    "submissions (run h d (map (SubmitAttempt t) attempts)) = submissions d"
    by simp_all
  from a show "list_all
      (\<lambda>a. submit_attempt h (run h d (map (SubmitAttempt t) attempts)) t a = Inr (False, d)) attempts"
    unfolding same by (auto simp: list_all_iff submit_attempt_incorrect)
qed

text \<open>C6 at work: three wrong answers to the only level.\<close>

theorem submit_attempt_rejection_witness:
  "can_submit one_level red \<and> next_level one_level red = Some L1 \<and>
   list_all (\<lambda>a. \<not> is_correct rev L1 a) [''wrong'', ''flag'', ''wrong''] \<and>
   submit_attempt rev one_level red ''wrong'' = Inr (False, one_level) \<and>
   run rev one_level (map (SubmitAttempt red) [''wrong'', ''flag'', ''wrong'']) = one_level \<and>
   next_level_index (run rev one_level (map (SubmitAttempt red) [''wrong'', ''flag'', ''wrong''])) red
     = 0 \<and>
   submissions (run rev one_level (map (SubmitAttempt red) [''wrong'', ''flag'', ''wrong''])) = []"
proof -
  have c: "can_submit one_level red"
    by code_simp
  have n: "next_level one_level red = Some L1"
    by code_simp
  have w: "list_all (\<lambda>a. \<not> is_correct rev L1 a) [''wrong'', ''flag'', ''wrong'']"
    by code_simp
  then have w1: "\<not> is_correct rev L1 ''wrong''"
    by simp
  have z: "next_level_index one_level red = 0" "submissions one_level = []"
    by code_simp+
  from c n w1 submit_attempt_rejection [where d = one_level and t = red and l = L1 and h = rev
      and a = "''wrong''"]
  have a: "submit_attempt rev one_level red ''wrong'' = Inr (False, one_level)"
    by blast
  from c n w submit_attempt_rejection [where d = one_level and t = red and l = L1 and h = rev
      and attempts = "[''wrong'', ''flag'', ''wrong'']"]
  have b: "run rev one_level (map (SubmitAttempt red) [''wrong'', ''flag'', ''wrong'']) = one_level"
    by blast
  from c n w a b z show ?thesis by simp
qed

section \<open>Levels\<close>

text \<open>
  Claim C5, at the input of \<^verbatim>\<open>test_cannot_create_level_with_same_answer\<close>: after a
  level \<^verbatim>\<open>foo\<close> with the answer \<^verbatim>\<open>bar\<close>, a level \<^verbatim>\<open>baz\<close> with the same answer is
  created, and the two rows hold the same digest. The model of \<^verbatim>\<open>Level\<close> declares
  \<^verbatim>\<open>unique=True\<close> on the name only.
\<close>

theorem Level_create_same_answer:
  "Level_create (run h empty_db [CreateLevel ''foo'' (encoded h ''bar'')]) ''baz'' (encoded h ''bar'')
   = Inr (\<lparr>level_id = 2, level_name = ''baz'', level_answer = h ''bar''\<rparr>,
       \<lparr>teams = [], team_members = [],
        levels = [\<lparr>level_id = 1, level_name = ''foo'', level_answer = h ''bar''\<rparr>,
                  \<lparr>level_id = 2, level_name = ''baz'', level_answer = h ''bar''\<rparr>],
        submissions = [], team_seq = 1, member_seq = 1, level_seq = 3, submission_seq = 1\<rparr>)"
  by (simp add: run_def Level_create_def empty_db_def encoded_def Let_def)

section \<open>The invariant of the database\<close>

text \<open>
  \<open>db_inv\<close> holds of the empty database and every call keeps it, so it holds of every
  database that a sequence of calls builds.
\<close>

lemma ledger_ok_iff:
  "ledger_ok d \<longleftrightarrow> (\<forall>t. map sub_level (submissions_of d t)
      = take (next_level_index d t) (map level_id (levels d)))"
proof
  assume ok: "ledger_ok d"
  show "\<forall>t. map sub_level (submissions_of d t)
      = take (next_level_index d t) (map level_id (levels d))"
  proof
    fix t
    show "map sub_level (submissions_of d t) = take (next_level_index d t) (map level_id (levels d))"
    proof (cases "submissions_of d t")
      case Nil
      then show ?thesis by (simp add: next_level_index_def)
    next
      case (Cons s ss)
      then have "s \<in> set (submissions_of d t)" by simp
      then have "s \<in> set (submissions d)" "sub_team s = team_id t"
        by (simp_all add: submissions_of_def)
      with ok have "map sub_level (filter (\<lambda>x. sub_team x = sub_team s) (submissions d))
          = take (length (filter (\<lambda>x. sub_team x = sub_team s) (submissions d)))
              (map level_id (levels d))"
        by (auto simp: ledger_ok_def list_all_iff Let_def)
      with \<open>sub_team s = team_id t\<close> show ?thesis
        by (simp add: submissions_of_def next_level_index_def)
    qed
  qed
next
  assume all: "\<forall>t. map sub_level (submissions_of d t)
      = take (next_level_index d t) (map level_id (levels d))"
  show "ledger_ok d"
    unfolding ledger_ok_def list_all_iff Let_def
  proof
    fix s assume "s \<in> set (submissions d)"
    from all have "map sub_level (submissions_of d \<lparr>team_id = sub_team s, team_name = []\<rparr>)
      = take (next_level_index d \<lparr>team_id = sub_team s, team_name = []\<rparr>) (map level_id (levels d))"
      by blast
    then show "map sub_level (filter (\<lambda>x. sub_team x = sub_team s) (submissions d))
        = take (length (filter (\<lambda>x. sub_team x = sub_team s) (submissions d)))
            (map level_id (levels d))"
      by (simp add: submissions_of_def next_level_index_def)
  qed
qed

lemma ledger_ok_length:
  assumes "ledger_ok d"
  shows "next_level_index d t \<le> length (levels d)"
proof -
  from assms have "map sub_level (submissions_of d t)
      = take (next_level_index d t) (map level_id (levels d))"
    by (simp add: ledger_ok_iff)
  then have "length (map sub_level (submissions_of d t))
      = length (take (next_level_index d t) (map level_id (levels d)))"
    by simp
  then show ?thesis by (simp add: next_level_index_def)
qed

lemma db_inv_empty_db: "db_inv empty_db"
  by (simp add: db_inv_def keys_ok_def uk_user_def fk_ok_def ledger_ok_def empty_db_def)

lemma db_inv_Team_create:
  assumes "db_inv d"
  shows "db_inv (snd (Team_create d name))"
proof -
  from assms have k: "keys_ok d" and u: "uk_user d" and f: "fk_ok d" and l: "ledger_ok d"
    by (simp_all add: db_inv_def)
  from k have "keys_ok (snd (Team_create d name))"
    by (auto simp: keys_ok_def Team_create_def Let_def list_all_iff)
  moreover from u have "uk_user (snd (Team_create d name))"
    by (simp add: uk_user_def Team_create_def Let_def)
  moreover from f have "fk_ok (snd (Team_create d name))"
    by (auto simp: fk_ok_def Team_create_def Let_def list_all_iff)
  moreover from l have "ledger_ok (snd (Team_create d name))"
    by (simp add: ledger_ok_def Team_create_def Let_def)
  ultimately show ?thesis by (simp add: db_inv_def)
qed

lemma db_inv_Level_create:
  assumes "db_inv d" and "Level_create d name answer = Inr (l, d')"
  shows "db_inv d'"
proof -
  from assms(1) have k: "keys_ok d" and u: "uk_user d" and f: "fk_ok d" and lo: "ledger_ok d"
    by (simp_all add: db_inv_def)
  from assms(2) have d': "d' = d\<lparr>levels := levels d @
      [\<lparr>level_id = level_seq d, level_name = name, level_answer = answer\<rparr>],
      level_seq := Suc (level_seq d)\<rparr>"
    by (auto simp: Level_create_def Let_def split: if_splits)
  from k have "keys_ok d'"
    by (auto simp: keys_ok_def d' list_all_iff)
  moreover from u have "uk_user d'"
    by (simp add: uk_user_def d')
  moreover from f have "fk_ok d'"
    by (simp add: fk_ok_def d')
  moreover have "ledger_ok d'"
    unfolding ledger_ok_iff
  proof
    fix t
    have n: "next_level_index d t \<le> length (levels d)"
      using lo by (rule ledger_ok_length)
    from lo have "map sub_level (submissions_of d t)
        = take (next_level_index d t) (map level_id (levels d))"
      by (simp add: ledger_ok_iff)
    with n show "map sub_level (submissions_of d' t)
        = take (next_level_index d' t) (map level_id (levels d'))"
      by (simp add: d' submissions_of_def next_level_index_def)
  qed
  ultimately show ?thesis by (simp add: db_inv_def)
qed

lemma db_inv_add_member:
  assumes "db_inv d" and "add_member d t u = Inr d'"
  shows "db_inv d'"
proof -
  from assms(1) have k: "keys_ok d" and uk: "uk_user d" and f: "fk_ok d" and lo: "ledger_ok d"
    by (simp_all add: db_inv_def)
  from assms(2) have new: "u \<notin> set (map tm_user (team_members d))"
    and team: "team_id t \<in> set (map team_id (teams d))"
    and d': "d' = d\<lparr>team_members := team_members d @
      [\<lparr>tm_id = member_seq d, tm_team = team_id t, tm_user = u\<rparr>],
      member_seq := Suc (member_seq d)\<rparr>"
    by (auto simp: add_member_def TeamMember_create_def split: if_splits)
  from k have "keys_ok d'"
    by (simp add: keys_ok_def d')
  moreover from uk new have "uk_user d'"
    by (simp add: uk_user_def d')
  moreover from f team have "fk_ok d'"
    by (simp add: fk_ok_def d')
  moreover from lo have "ledger_ok d'"
    by (simp add: ledger_ok_def d')
  ultimately show ?thesis by (simp add: db_inv_def)
qed

lemma db_inv_TeamMember_delete:
  assumes "db_inv d"
  shows "db_inv (TeamMember_delete d t u)"
proof -
  from assms have k: "keys_ok d" and uk: "uk_user d" and f: "fk_ok d" and lo: "ledger_ok d"
    by (simp_all add: db_inv_def)
  from k have "keys_ok (TeamMember_delete d t u)"
    by (simp add: keys_ok_def TeamMember_delete_def)
  moreover from uk have "uk_user (TeamMember_delete d t u)"
    by (simp add: uk_user_def TeamMember_delete_def distinct_map_filter)
  moreover from f have "fk_ok (TeamMember_delete d t u)"
    by (simp add: fk_ok_def TeamMember_delete_def list_all_iff)
  moreover from lo have "ledger_ok (TeamMember_delete d t u)"
    by (simp add: ledger_ok_def TeamMember_delete_def)
  ultimately show ?thesis by (simp add: db_inv_def)
qed

lemma db_inv_Team_delete:
  assumes "db_inv d"
  shows "db_inv (Team_delete d t)"
proof -
  from assms have k: "keys_ok d" and uk: "uk_user d" and f: "fk_ok d" and lo: "ledger_ok d"
    by (simp_all add: db_inv_def)
  from k have "keys_ok (Team_delete d t)"
    by (simp add: keys_ok_def Team_delete_def distinct_map_filter list_all_iff)
  moreover from uk have "uk_user (Team_delete d t)"
    by (simp add: uk_user_def Team_delete_def distinct_map_filter)
  moreover from f have "fk_ok (Team_delete d t)"
    by (auto simp: fk_ok_def Team_delete_def list_all_iff)
  moreover have "ledger_ok (Team_delete d t)"
    unfolding ledger_ok_def list_all_iff Let_def
  proof
    fix s assume "s \<in> set (submissions (Team_delete d t))"
    then have s: "s \<in> set (submissions d)" "sub_team s \<noteq> team_id t"
      by (simp_all add: Team_delete_def)
    then have same: "filter (\<lambda>x. sub_team x = sub_team s) (submissions (Team_delete d t))
        = filter (\<lambda>x. sub_team x = sub_team s) (submissions d)"
      by (auto simp: Team_delete_def intro: filter_cong)
    from lo s(1) show "map sub_level (filter (\<lambda>x. sub_team x = sub_team s) (submissions (Team_delete d t)))
        = take (length (filter (\<lambda>x. sub_team x = sub_team s) (submissions (Team_delete d t))))
            (map level_id (levels (Team_delete d t)))"
      unfolding same by (simp add: ledger_ok_def list_all_iff Let_def Team_delete_def)
  qed
  ultimately show ?thesis by (simp add: db_inv_def)
qed

lemma db_inv_remove_member:
  "db_inv d \<Longrightarrow> db_inv (remove_member d t u)"
  by (simp add: remove_member_def Let_def db_inv_TeamMember_delete db_inv_Team_delete)

lemma db_inv_Submission_create:
  assumes "db_inv d" and "next_level d t = Some l" and "Submission_create d t l = Inr d'"
  shows "db_inv d'"
proof -
  from assms(1) have k: "keys_ok d" and uk: "uk_user d" and f: "fk_ok d" and lo: "ledger_ok d"
    by (simp_all add: db_inv_def)
  let ?row = "\<lparr>sub_id = submission_seq d, sub_team = team_id t, sub_level = level_id l\<rparr>"
  from assms(3) have team: "team_id t \<in> set (map team_id (teams d))"
    and d': "d' = d\<lparr>submissions := submissions d @ [?row],
      submission_seq := Suc (submission_seq d)\<rparr>"
    by (auto simp: Submission_create_def split: if_splits)
  from assms(2) have n: "next_level_index d t < length (levels d)"
    and l: "l = levels d ! next_level_index d t"
    by (auto simp: next_level_def Let_def split: if_splits)
  from k have "keys_ok d'"
    by (simp add: keys_ok_def d')
  moreover from uk have "uk_user d'"
    by (simp add: uk_user_def d')
  moreover from f team have "fk_ok d'"
    by (simp add: fk_ok_def d')
  moreover have "ledger_ok d'"
    unfolding ledger_ok_iff
  proof
    fix t'
    from lo have old: "map sub_level (submissions_of d t')
        = take (next_level_index d t') (map level_id (levels d))"
      by (simp add: ledger_ok_iff)
    show "map sub_level (submissions_of d' t')
        = take (next_level_index d' t') (map level_id (levels d'))"
    proof (cases "team_id t' = team_id t")
      case True
      then have same: "submissions_of d t' = submissions_of d t"
        "next_level_index d t' = next_level_index d t"
        by (simp_all add: submissions_of_def next_level_index_def)
      from True have "submissions_of d' t' = submissions_of d t @ [?row]"
        by (simp add: d' submissions_of_def)
      with old n l same show ?thesis
        by (simp add: d' next_level_index_def take_Suc_conv_app_nth)
    next
      case False
      then have "submissions_of d' t' = submissions_of d t'"
        by (simp add: d' submissions_of_def)
      with old show ?thesis
        by (simp add: d' next_level_index_def)
    qed
  qed
  ultimately show ?thesis by (simp add: db_inv_def)
qed

lemma db_inv_submit_attempt:
  assumes "db_inv d" and "submit_attempt h d t a = Inr (b, d')"
  shows "db_inv d'"
proof (cases "d' = d")
  case True
  with assms(1) show ?thesis by simp
next
  case False
  with assms(2) obtain l where "next_level d t = Some l" "Submission_create d t l = Inr d'"
    by (auto simp: submit_attempt_def split: if_splits option.splits sum.splits)
  with assms(1) show ?thesis by (rule db_inv_Submission_create)
qed

lemma db_inv_exec:
  assumes "db_inv d"
  shows "db_inv (exec h d x)"
proof (cases x)
  case (CreateTeam name)
  with assms show ?thesis by (simp add: db_inv_Team_create)
next
  case (CreateLevel name answer)
  with assms show ?thesis
    by (auto split: sum.splits dest: db_inv_Level_create)
next
  case (AddMember t u)
  with assms show ?thesis
    by (auto split: sum.splits dest: db_inv_add_member)
next
  case (RemoveMember t u)
  with assms show ?thesis by (simp add: db_inv_remove_member)
next
  case (SubmitAttempt t a)
  with assms show ?thesis
    by (auto split: sum.splits dest: db_inv_submit_attempt)
qed

lemma db_inv_run:
  "db_inv d \<Longrightarrow> db_inv (run h d ops)"
  unfolding run_def by (induction ops arbitrary: d) (simp_all add: db_inv_exec)

lemma db_inv_reachable: "db_inv (run h empty_db ops)"
  by (rule db_inv_run) (rule db_inv_empty_db)

section \<open>A correct answer\<close>

lemma nth_notin_take:
  "distinct xs \<Longrightarrow> k < length xs \<Longrightarrow> xs ! k \<notin> set (take k xs)"
proof
  assume d: "distinct xs" and k: "k < length xs" and "xs ! k \<in> set (take k xs)"
  then obtain i where "i < k" "take k xs ! i = xs ! k"
    by (auto simp: in_set_conv_nth)
  with k have "i < length xs" "i \<noteq> k" "xs ! i = xs ! k"
    by simp_all
  with d k show False
    by (simp add: nth_eq_iff_index_eq)
qed

lemma Submission_create_next_level:
  assumes inv: "db_inv d" and member: "\<not> is_empty d t" and nl: "next_level d t = Some l"
  shows "Submission_create d t l = Inr (d\<lparr>submissions := submissions d @
      [\<lparr>sub_id = submission_seq d, sub_team = team_id t, sub_level = level_id l\<rparr>],
      submission_seq := Suc (submission_seq d)\<rparr>)"
proof -
  from inv have k: "keys_ok d" and f: "fk_ok d" and lo: "ledger_ok d"
    by (simp_all add: db_inv_def)
  from nl have n: "next_level_index d t < length (levels d)"
    and l: "l = levels d ! next_level_index d t"
    by (auto simp: next_level_def Let_def split: if_splits)
  from member obtain m where "m \<in> set (team_members d)" "tm_team m = team_id t"
    by (auto simp: is_empty_def members_of_def filter_empty_conv)
  with f have team: "team_id t \<in> set (map team_id (teams d))"
    by (metis fk_ok_def list_all_iff)
  from n l have level: "level_id l \<in> set (map level_id (levels d))"
    by simp
  have fresh: "(team_id t, level_id l) \<notin> set (map (\<lambda>s. (sub_team s, sub_level s)) (submissions d))"
  proof
    assume "(team_id t, level_id l) \<in> set (map (\<lambda>s. (sub_team s, sub_level s)) (submissions d))"
    then have "level_id l \<in> set (map sub_level (submissions_of d t))"
      by (auto simp: submissions_of_def)
    with lo have "level_id l \<in> set (take (next_level_index d t) (map level_id (levels d)))"
      by (simp add: ledger_ok_iff)
    moreover from n l have "level_id l = map level_id (levels d) ! next_level_index d t"
      by simp
    moreover from k have "distinct (map level_id (levels d))"
      by (simp add: keys_ok_def)
    ultimately show False
      using n nth_notin_take [of "map level_id (levels d)" "next_level_index d t"] by simp
  qed
  from fresh team level show ?thesis
    by (simp add: Submission_create_def)
qed

lemma next_level_last:
  assumes inv: "db_inv d" and nl: "next_level d t = Some l" and last: "l = last (levels d)"
  shows "Suc (next_level_index d t) = length (levels d)"
proof -
  from inv have dist: "distinct (map level_id (levels d))"
    by (simp add: db_inv_def keys_ok_def)
  from nl have n: "next_level_index d t < length (levels d)"
    and l: "l = levels d ! next_level_index d t"
    by (auto simp: next_level_def Let_def split: if_splits)
  from n have ne: "levels d \<noteq> []" by auto
  with last have "l = levels d ! (length (levels d) - 1)"
    by (simp add: last_conv_nth)
  with l n ne have same: "map level_id (levels d) ! next_level_index d t
      = map level_id (levels d) ! (length (levels d) - 1)"
    by simp
  have "(map level_id (levels d) ! next_level_index d t
      = map level_id (levels d) ! (length (levels d) - 1))
      = (next_level_index d t = length (levels d) - 1)"
    using dist n ne by (intro nth_eq_iff_index_eq) simp_all
  with same have "next_level_index d t = length (levels d) - 1"
    by blast
  with n show ?thesis by simp
qed

text \<open>
  Claim C3. In a database built by the calls, for a team that is not empty and has a next
  level, \<^verbatim>\<open>submit_attempt\<close> with an answer that is correct for that level returns true
  and appends one submission row, for the team and that level, and changes nothing else;
  the index of the next level is one more than before; and if the level was the last of
  the catalogue, the team cannot submit any more and has no next level.
\<close>

theorem submit_attempt_correct_answer:
  "d = run h empty_db ops \<and> \<not> is_empty d t \<and> next_level d t = Some l \<and> is_correct h l a \<longrightarrow>
   submit_attempt h d t a = Inr (True, d\<lparr>submissions := submissions d @
       [\<lparr>sub_id = submission_seq d, sub_team = team_id t, sub_level = level_id l\<rparr>],
       submission_seq := Suc (submission_seq d)\<rparr>) \<and>
   next_level_index (exec h d (SubmitAttempt t a)) t = next_level_index d t + 1 \<and>
   (l = last (levels d) \<longrightarrow>
      \<not> can_submit (exec h d (SubmitAttempt t a)) t \<and>
      next_level (exec h d (SubmitAttempt t a)) t = None)"
proof (intro impI)
  let ?d' = "d\<lparr>submissions := submissions d @
       [\<lparr>sub_id = submission_seq d, sub_team = team_id t, sub_level = level_id l\<rparr>],
       submission_seq := Suc (submission_seq d)\<rparr>"
  assume a: "d = run h empty_db ops \<and> \<not> is_empty d t \<and> next_level d t = Some l \<and> is_correct h l a"
  then have r: "d = run h empty_db ops" and m: "\<not> is_empty d t"
    and n: "next_level d t = Some l" and c: "is_correct h l a"
    by blast+
  from r have inv: "db_inv d"
    by (simp add: db_inv_reachable)
  from m n have can: "can_submit d t"
    by (simp add: can_submit_def)
  from inv m n have "Submission_create d t l = Inr ?d'"
    by (rule Submission_create_next_level)
  with can n c have res: "submit_attempt h d t a = Inr (True, ?d')"
    by (simp add: submit_attempt_correct)
  then have ex: "exec h d (SubmitAttempt t a) = ?d'"
    by simp
  have idx: "next_level_index ?d' t = next_level_index d t + 1"
    by (simp add: next_level_index_def submissions_of_def)
  have fin: "\<not> can_submit ?d' t \<and> next_level ?d' t = None" if "l = last (levels d)"
  proof -
    from inv n that have "Suc (next_level_index d t) = length (levels d)"
      by (rule next_level_last)
    with idx have "next_level ?d' t = None"
      by (simp add: next_level_def Let_def)
    then show ?thesis by (simp add: can_submit_def)
  qed
  from res idx fin show "submit_attempt h d t a = Inr (True, ?d') \<and>
      next_level_index (exec h d (SubmitAttempt t a)) t = next_level_index d t + 1 \<and>
      (l = last (levels d) \<longrightarrow>
         \<not> can_submit (exec h d (SubmitAttempt t a)) t \<and>
         next_level (exec h d (SubmitAttempt t a)) t = None)"
    unfolding ex by blast
qed

text \<open>C3 at work: scenario B of the specification, the only level solved by its flag.\<close>

theorem submit_attempt_correct_answer_witness:
  "one_level = run rev empty_db
     [CreateLevel ''L1'' (encoded rev ''flag1''), CreateTeam ''red'', AddMember red 11] \<and>
   \<not> is_empty one_level red \<and> next_level one_level red = Some L1 \<and>
   is_correct rev L1 ''flag1'' \<and> L1 = last (levels one_level) \<and>
   next_level_index one_level red = 0 \<and>
   submit_attempt rev one_level red ''flag1'' = Inr (True, one_level\<lparr>submissions :=
     [\<lparr>sub_id = 1, sub_team = 1, sub_level = 1\<rparr>], submission_seq := 2\<rparr>) \<and>
   next_level_index (exec rev one_level (SubmitAttempt red ''flag1'')) red = 1 \<and>
   \<not> can_submit (exec rev one_level (SubmitAttempt red ''flag1'')) red \<and>
   next_level (exec rev one_level (SubmitAttempt red ''flag1'')) red = None"
proof -
  have r: "one_level = run rev empty_db
     [CreateLevel ''L1'' (encoded rev ''flag1''), CreateTeam ''red'', AddMember red 11]"
    by (rule one_level_def)
  have m: "\<not> is_empty one_level red"
    by code_simp
  have n: "next_level one_level red = Some L1"
    by code_simp
  have c: "is_correct rev L1 ''flag1''"
    by code_simp
  have l: "L1 = last (levels one_level)"
    by code_simp
  have z: "next_level_index one_level red = 0"
    by code_simp
  have row: "one_level\<lparr>submissions := submissions one_level @
       [\<lparr>sub_id = submission_seq one_level, sub_team = team_id red, sub_level = level_id L1\<rparr>],
       submission_seq := Suc (submission_seq one_level)\<rparr>
     = one_level\<lparr>submissions := [\<lparr>sub_id = 1, sub_team = 1, sub_level = 1\<rparr>],
         submission_seq := 2\<rparr>"
    by code_simp
  from r m n c l submit_attempt_correct_answer [where d = one_level and h = rev and t = red
      and l = L1 and a = "''flag1''" and ops = "[CreateLevel ''L1'' (encoded rev ''flag1''),
        CreateTeam ''red'', AddMember red 11]"]
  have "submit_attempt rev one_level red ''flag1'' = Inr (True, one_level\<lparr>submissions :=
       submissions one_level @
       [\<lparr>sub_id = submission_seq one_level, sub_team = team_id red, sub_level = level_id L1\<rparr>],
       submission_seq := Suc (submission_seq one_level)\<rparr>)"
    and i: "next_level_index (exec rev one_level (SubmitAttempt red ''flag1'')) red
      = next_level_index one_level red + 1"
    and f: "\<not> can_submit (exec rev one_level (SubmitAttempt red ''flag1'')) red"
      "next_level (exec rev one_level (SubmitAttempt red ''flag1'')) red = None"
    by blast+
  then have s: "submit_attempt rev one_level red ''flag1'' = Inr (True, one_level\<lparr>submissions :=
     [\<lparr>sub_id = 1, sub_team = 1, sub_level = 1\<rparr>], submission_seq := 2\<rparr>)"
    unfolding row by simp
  from i z have i': "next_level_index (exec rev one_level (SubmitAttempt red ''flag1'')) red = 1"
    by simp
  from r m n c l z s i' f show ?thesis by blast
qed

section \<open>One team per user\<close>

lemma filter_key_distinct:
  "distinct (map f xs) \<Longrightarrow> length (filter (\<lambda>x. f x = k) xs) \<le> 1"
proof (induction xs)
  case Nil
  then show ?case by simp
next
  case (Cons a xs)
  show ?case
  proof (cases "f a = k")
    case True
    with Cons.prems have "filter (\<lambda>x. f x = k) xs = []"
      by (auto simp: filter_empty_conv image_iff)
    with True show ?thesis by simp
  next
    case False
    with Cons show ?thesis by simp
  qed
qed

lemma find_team_teams_of_user:
  assumes inv: "db_inv d"
  shows "length (teams_of_user d u) \<le> 1 \<and>
    find_team d u = Inr (case teams_of_user d u of [] \<Rightarrow> None | t # ts \<Rightarrow> Some t)"
proof -
  from inv have k: "distinct (map team_id (teams d))" and uk: "distinct (map tm_user (team_members d))"
    and f: "list_all (\<lambda>m. tm_team m \<in> set (map team_id (teams d))) (team_members d)"
    by (simp_all add: db_inv_def keys_ok_def uk_user_def fk_ok_def)
  from uk have "length (filter (\<lambda>m. tm_user m = u) (team_members d)) \<le> 1"
    by (rule filter_key_distinct)
  then consider "filter (\<lambda>m. tm_user m = u) (team_members d) = []"
    | m where "filter (\<lambda>m. tm_user m = u) (team_members d) = [m]"
    by (cases "filter (\<lambda>m. tm_user m = u) (team_members d)") (auto simp: Suc_le_eq)
  then show ?thesis
  proof cases
    case 1
    then have "\<forall>m \<in> set (team_members d). tm_user m \<noteq> u"
      by (simp add: filter_empty_conv)
    then have "teams_of_user d u = []"
      by (auto simp: teams_of_user_def list_ex_iff filter_empty_conv)
    with 1 show ?thesis by (simp add: find_team_def)
  next
    case 2
    then have "set (filter (\<lambda>m. tm_user m = u) (team_members d)) = {m}"
      by simp
    then have m: "m \<in> set (team_members d)" "tm_user m = u"
      and only: "\<forall>x \<in> set (team_members d). tm_user x = u \<longrightarrow> x = m"
      by auto
    then have ex: "list_ex (\<lambda>x. tm_user x = u \<and> tm_team x = team_id t) (team_members d)
        \<longleftrightarrow> team_id t = tm_team m" for t
      unfolding list_ex_iff by metis
    have tu: "teams_of_user d u = filter (\<lambda>t. team_id t = tm_team m) (teams d)"
      unfolding teams_of_user_def by (rule filter_cong) (simp_all add: ex)
    from m(1) f have "tm_team m \<in> set (map team_id (teams d))"
      by (simp add: list_all_iff)
    then have ne: "filter (\<lambda>t. team_id t = tm_team m) (teams d) \<noteq> []"
      by (auto simp: filter_empty_conv)
    from k have le: "length (filter (\<lambda>t. team_id t = tm_team m) (teams d)) \<le> 1"
      by (rule filter_key_distinct)
    from ne obtain t ts where t: "filter (\<lambda>t. team_id t = tm_team m) (teams d) = t # ts"
      by (cases "filter (\<lambda>t. team_id t = tm_team m) (teams d)") auto
    with 2 tu le show ?thesis by (simp add: find_team_def)
  qed
qed

lemma add_member_already_member:
  "u \<in> set (map tm_user (team_members d)) \<Longrightarrow> is_accepting_members d t \<Longrightarrow>
   add_member d t u
     = Inl (IntegrityError ''UNIQUE constraint failed: leaderboard_teammember.user_id'')"
  by (simp add: add_member_def TeamMember_create_def)

text \<open>
  Claim C7, amended. In a database built by the calls no two member rows have the same
  user, a user belongs to at most one team, and \<^verbatim>\<open>find_team\<close> returns that team, or
  \<^verbatim>\<open>None\<close> for a user with no team. For a user who has a member row already,
  \<^verbatim>\<open>add_member\<close> fails on any team: with the \<^verbatim>\<open>IntegrityError\<close> of the constraint
  \<^verbatim>\<open>uk_user\<close>, raised by the insert itself, if the team accepts members; with the capacity
  error if the team is full, since that check comes first.
\<close>

theorem one_team_per_user:
  "(d = run h empty_db ops \<longrightarrow>
      distinct (map tm_user (team_members d)) \<and>
      length (teams_of_user d u) \<le> 1 \<and>
      find_team d u = Inr (case teams_of_user d u of [] \<Rightarrow> None | t # ts \<Rightarrow> Some t)) \<and>
   (u \<in> set (map tm_user (team_members d)) \<and> is_accepting_members d t \<longrightarrow>
      add_member d t u
        = Inl (IntegrityError ''UNIQUE constraint failed: leaderboard_teammember.user_id'') \<and>
      add_member d t u = TeamMember_create d t u) \<and>
   (u \<in> set (map tm_user (team_members d)) \<and> \<not> is_accepting_members d t \<longrightarrow>
      add_member d t u = Inl (ValueError
        (''Team '' @ [CHR 0x27] @ team_name t @ [CHR 0x27] @ '' is not accepting members'')))"
proof (intro conjI impI)
  assume "d = run h empty_db ops"
  then have inv: "db_inv d"
    by (simp add: db_inv_reachable)
  then show "distinct (map tm_user (team_members d))"
    by (simp add: db_inv_def uk_user_def)
  from inv show "length (teams_of_user d u) \<le> 1"
    "find_team d u = Inr (case teams_of_user d u of [] \<Rightarrow> None | t # ts \<Rightarrow> Some t)"
    using find_team_teams_of_user by blast+
next
  assume a: "u \<in> set (map tm_user (team_members d)) \<and> is_accepting_members d t"
  then show "add_member d t u
      = Inl (IntegrityError ''UNIQUE constraint failed: leaderboard_teammember.user_id'')"
    by (simp add: add_member_already_member)
  from a show "add_member d t u = TeamMember_create d t u"
    by (simp add: add_member_def)
next
  assume "u \<in> set (map tm_user (team_members d)) \<and> \<not> is_accepting_members d t"
  then show "add_member d t u = Inl (ValueError
      (''Team '' @ [CHR 0x27] @ team_name t @ [CHR 0x27] @ '' is not accepting members''))"
    by (simp add: add_member_def)
qed

text \<open>
  C7 at work: two teams of one member each; a member of one is refused by the other and by
  its own team; a member of a full team gets the capacity error.
\<close>

theorem one_team_per_user_witness:
  "two_teams = run rev empty_db
     [CreateTeam ''red'', CreateTeam ''blue'', AddMember red 11, AddMember blue 12] \<and>
   teams_of_user two_teams 11 = [red] \<and> find_team two_teams 11 = Inr (Some red) \<and>
   teams_of_user two_teams 12 = [blue] \<and> find_team two_teams 12 = Inr (Some blue) \<and>
   teams_of_user two_teams 13 = [] \<and> find_team two_teams 13 = Inr None \<and>
   11 \<in> set (map tm_user (team_members two_teams)) \<and>
   is_accepting_members two_teams blue \<and> is_accepting_members two_teams red \<and>
   add_member two_teams blue 11
     = Inl (IntegrityError ''UNIQUE constraint failed: leaderboard_teammember.user_id'') \<and>
   add_member two_teams red 11
     = Inl (IntegrityError ''UNIQUE constraint failed: leaderboard_teammember.user_id'') \<and>
   11 \<in> set (map tm_user (team_members quartet)) \<and> \<not> is_accepting_members quartet red \<and>
   add_member quartet red 11 = Inl (ValueError
     (''Team '' @ [CHR 0x27] @ ''red'' @ [CHR 0x27] @ '' is not accepting members''))"
proof -
  have r: "two_teams = run rev empty_db
     [CreateTeam ''red'', CreateTeam ''blue'', AddMember red 11, AddMember blue 12]"
    by (rule two_teams_def)
  have t: "teams_of_user two_teams 11 = [red]" "teams_of_user two_teams 12 = [blue]"
    "teams_of_user two_teams 13 = []"
    by code_simp+
  have m: "11 \<in> set (map tm_user (team_members two_teams))"
    by code_simp
  have acc: "is_accepting_members two_teams blue" "is_accepting_members two_teams red"
    by code_simp+
  have m': "11 \<in> set (map tm_user (team_members quartet))"
    by code_simp
  have full: "\<not> is_accepting_members quartet red"
    by code_simp
  have name: "team_name red = ''red''"
    by (simp add: red_def)
  note inst = one_team_per_user [where h = rev and ops = "[CreateTeam ''red'', CreateTeam ''blue'',
    AddMember red 11, AddMember blue 12]"]
  from r inst [where d = two_teams and u = 11]
  have f1: "find_team two_teams 11 = Inr (case teams_of_user two_teams 11 of [] \<Rightarrow> None | t # ts \<Rightarrow> Some t)"
    by blast
  from r inst [where d = two_teams and u = 12]
  have f2: "find_team two_teams 12 = Inr (case teams_of_user two_teams 12 of [] \<Rightarrow> None | t # ts \<Rightarrow> Some t)"
    by blast
  from r inst [where d = two_teams and u = 13]
  have f3: "find_team two_teams 13 = Inr (case teams_of_user two_teams 13 of [] \<Rightarrow> None | t # ts \<Rightarrow> Some t)"
    by blast
  from f1 f2 f3 have f: "find_team two_teams 11 = Inr (Some red)"
    "find_team two_teams 12 = Inr (Some blue)" "find_team two_teams 13 = Inr None"
    unfolding t by simp_all
  from m acc(1) inst [where d = two_teams and u = 11 and t = blue]
  have a1: "add_member two_teams blue 11
      = Inl (IntegrityError ''UNIQUE constraint failed: leaderboard_teammember.user_id'')"
    by blast
  from m acc(2) inst [where d = two_teams and u = 11 and t = red]
  have a2: "add_member two_teams red 11
      = Inl (IntegrityError ''UNIQUE constraint failed: leaderboard_teammember.user_id'')"
    by blast
  from m' full inst [where d = quartet and u = 11 and t = red]
  have a3: "add_member quartet red 11 = Inl (ValueError
     (''Team '' @ [CHR 0x27] @ ''red'' @ [CHR 0x27] @ '' is not accepting members''))"
    unfolding name by blast
  from r t f m acc a1 a2 m' full a3 show ?thesis by blast
qed

text \<open>
  Claim C7 as it was stated fails on a full team: user 11 has a member row, and
  \<^verbatim>\<open>add_member\<close> raises the capacity error, not the uniqueness violation.
\<close>

theorem add_member_uniqueness_counterexample:
  "11 \<in> set (map tm_user (team_members quartet)) \<and>
   add_member quartet red 11 = Inl (ValueError
     (''Team '' @ [CHR 0x27] @ ''red'' @ [CHR 0x27] @ '' is not accepting members'')) \<and>
   add_member quartet red 11
     \<noteq> Inl (IntegrityError ''UNIQUE constraint failed: leaderboard_teammember.user_id'')"
  by code_simp

section \<open>The index of the next level over time\<close>

lemma submissions_exec_no_remove:
  assumes "\<forall>t u. x \<noteq> RemoveMember t u"
  shows "\<exists>new. submissions (exec h d x) = submissions d @ new"
proof (cases x)
  case (CreateTeam name)
  then show ?thesis by (simp add: Team_create_def Let_def)
next
  case (CreateLevel name answer)
  then show ?thesis by (auto simp: Level_create_def Let_def split: if_splits)
next
  case (AddMember t u)
  then show ?thesis
    by (auto simp: add_member_def TeamMember_create_def split: if_splits)
next
  case (RemoveMember t u)
  with assms show ?thesis by simp
next
  case (SubmitAttempt t a)
  then show ?thesis
    by (auto simp: submit_attempt_def Submission_create_def split: if_splits option.splits)
qed

lemma next_level_index_exec_no_remove:
  assumes "\<forall>t u. x \<noteq> RemoveMember t u"
  shows "next_level_index d t \<le> next_level_index (exec h d x) t"
proof -
  from assms obtain new where "submissions (exec h d x) = submissions d @ new"
    using submissions_exec_no_remove by blast
  then show ?thesis
    by (simp add: next_level_index_def submissions_of_def)
qed

lemma next_level_index_Team_delete_other:
  "team_id t' \<noteq> team_id t \<Longrightarrow> next_level_index (Team_delete d t') t = next_level_index d t"
proof -
  assume "team_id t' \<noteq> team_id t"
  then have "filter (\<lambda>s. sub_team s = team_id t) (filter (\<lambda>s. sub_team s \<noteq> team_id t') ss)
      = filter (\<lambda>s. sub_team s = team_id t) ss" for ss :: "submission list"
    by (induction ss) auto
  then show ?thesis
    by (simp add: next_level_index_def submissions_of_def Team_delete_def del: filter_filter)
qed

lemma next_level_index_remove_member_kept:
  assumes "team_id t' \<noteq> team_id t \<or> \<not> list_all (\<lambda>m. tm_user m = u) (members_of d t')"
  shows "next_level_index (remove_member d t' u) t = next_level_index d t"
proof (cases "list_all (\<lambda>m. tm_user m = u) (members_of d t')")
  case True
  with assms have "team_id t' \<noteq> team_id t" by blast
  then have "next_level_index (Team_delete (TeamMember_delete d t' u) t') t
      = next_level_index (TeamMember_delete d t' u) t"
    by (rule next_level_index_Team_delete_other)
  with True show ?thesis
    by (simp add: remove_member_last next_level_index_def submissions_of_def
        TeamMember_delete_fields)
next
  case False
  then show ?thesis
    by (simp add: remove_member_not_last next_level_index_def submissions_of_def
        TeamMember_delete_fields)
qed

lemma next_level_index_remove_member_last:
  assumes "list_all (\<lambda>m. tm_user m = u) (members_of d t)"
  shows "next_level_index (remove_member d t u) t = 0"
  using assms Team_delete_gone(2) [where t = t and d = "TeamMember_delete d t u"]
  by (simp add: remove_member_last next_level_index_def)

lemma team_in_exec_next_level_index:
  assumes "team_id t \<in> set (map team_id (teams (exec h d x)))"
  shows "next_level_index d t \<le> next_level_index (exec h d x) t"
proof (cases "\<forall>t' u. x \<noteq> RemoveMember t' u")
  case True
  then show ?thesis by (rule next_level_index_exec_no_remove)
next
  case False
  then obtain t' u where x: "x = RemoveMember t' u" by blast
  have "team_id t' \<noteq> team_id t \<or> \<not> list_all (\<lambda>m. tm_user m = u) (members_of d t')"
  proof (rule ccontr)
    assume "\<not> (team_id t' \<noteq> team_id t \<or> \<not> list_all (\<lambda>m. tm_user m = u) (members_of d t'))"
    then have same: "team_id t' = team_id t" and "list_all (\<lambda>m. tm_user m = u) (members_of d t')"
      by blast+
    then have "remove_member d t' u = Team_delete (TeamMember_delete d t' u) t'"
      by (simp add: remove_member_last)
    with Team_delete_gone(1) [where t = t' and d = "TeamMember_delete d t' u"] same
    have "team_id t \<notin> set (map team_id (teams (remove_member d t' u)))"
      by simp
    with assms x show False by simp
  qed
  then have "next_level_index (remove_member d t' u) t = next_level_index d t"
    by (rule next_level_index_remove_member_kept)
  with x show ?thesis by simp
qed

lemma teams_exec:
  "set (map team_id (teams (exec h d x))) \<subseteq> insert (team_seq d) (set (map team_id (teams d)))"
proof (cases x)
  case (CreateTeam name)
  then show ?thesis by (auto simp: Team_create_def Let_def)
next
  case (CreateLevel name answer)
  then show ?thesis by (auto simp: Level_create_def Let_def split: if_splits)
next
  case (AddMember t u)
  then show ?thesis
    by (auto simp: add_member_def TeamMember_create_def split: if_splits)
next
  case (RemoveMember t u)
  then show ?thesis
    by (auto simp: remove_member_def Let_def Team_delete_def TeamMember_delete_def)
next
  case (SubmitAttempt t a)
  then show ?thesis
    by (auto simp: submit_attempt_def Submission_create_def split: if_splits option.splits)
qed

lemma team_seq_exec: "team_seq d \<le> team_seq (exec h d x)"
proof (cases x)
  case (CreateTeam name)
  then show ?thesis by (simp add: Team_create_def Let_def)
next
  case (CreateLevel name answer)
  then show ?thesis by (auto simp: Level_create_def Let_def split: if_splits)
next
  case (AddMember t u)
  then show ?thesis
    by (auto simp: add_member_def TeamMember_create_def split: if_splits)
next
  case (RemoveMember t u)
  then show ?thesis
    by (simp add: remove_member_def Let_def Team_delete_def TeamMember_delete_def)
next
  case (SubmitAttempt t a)
  then show ?thesis
    by (auto simp: submit_attempt_def Submission_create_def split: if_splits option.splits)
qed

lemma teams_run:
  "i \<in> set (map team_id (teams (run h d ops))) \<Longrightarrow>
   i \<in> set (map team_id (teams d)) \<or> team_seq d \<le> i"
proof (induction ops arbitrary: d)
  case Nil
  then show ?case by (simp add: run_def)
next
  case (Cons x xs)
  then have "i \<in> set (map team_id (teams (run h (exec h d x) xs)))"
    by (simp add: run_def)
  then have "i \<in> set (map team_id (teams (exec h d x))) \<or> team_seq (exec h d x) \<le> i"
    by (rule Cons.IH)
  with teams_exec [of h d x] team_seq_exec [of d h x] show ?case
    by auto
qed

lemma no_team_no_submissions:
  assumes "db_inv d" and "team_id t \<notin> set (map team_id (teams d))"
  shows "next_level_index d t = 0"
proof -
  from assms(1) have "list_all (\<lambda>s. sub_team s \<in> set (map team_id (teams d))) (submissions d)"
    by (simp add: db_inv_def fk_ok_def)
  with assms(2) have "\<forall>s \<in> set (submissions d). sub_team s \<noteq> team_id t"
    unfolding list_all_iff by metis
  then show ?thesis
    by (simp add: next_level_index_def submissions_of_def filter_empty_conv)
qed

lemma team_in_run_next_level_index:
  "db_inv d \<Longrightarrow> team_id t \<in> set (map team_id (teams (run h d ops))) \<Longrightarrow>
   next_level_index d t \<le> next_level_index (run h d ops) t"
proof (induction ops arbitrary: d)
  case Nil
  then show ?case by (simp add: run_def)
next
  case (Cons x xs)
  from Cons.prems(1) have inv: "db_inv (exec h d x)"
    by (rule db_inv_exec)
  from Cons.prems(2) have at_end: "team_id t \<in> set (map team_id (teams (run h (exec h d x) xs)))"
    by (simp add: run_def)
  with inv have later: "next_level_index (exec h d x) t \<le> next_level_index (run h (exec h d x) xs) t"
    by (rule Cons.IH)
  have "next_level_index d t \<le> next_level_index (exec h d x) t"
  proof (cases "team_id t \<in> set (map team_id (teams (exec h d x)))")
    case True
    then show ?thesis by (rule team_in_exec_next_level_index)
  next
    case False
    with at_end teams_run have fresh: "team_seq (exec h d x) \<le> team_id t"
      by blast
    have "team_id t \<notin> set (map team_id (teams d))"
    proof
      assume "team_id t \<in> set (map team_id (teams d))"
      with Cons.prems(1) have "team_id t < team_seq d"
        by (auto simp: db_inv_def keys_ok_def list_all_iff)
      with fresh team_seq_exec [of d h x] show False by simp
    qed
    with Cons.prems(1) have "next_level_index d t = 0"
      by (rule no_team_no_submissions)
    then show ?thesis by simp
  qed
  with later show ?case by (simp add: run_def)
qed

text \<open>
  Claim C2, amended. \<^verbatim>\<open>next_level_index\<close> is the number of submission rows of the team
  in every database. No call but \<^verbatim>\<open>remove_member\<close> removes a submission, so none of them
  lowers the index; \<^verbatim>\<open>remove_member\<close> leaves the index of a team as it is when it is
  called on another team or when a member remains, and when it removes the last member the
  team is deleted with its submissions, and its index is 0. Over any sequence of calls that
  continues a database built by the calls, the index of a team that is in the table at the
  end has not decreased.
\<close>

theorem next_level_index_over_time:
  "next_level_index d t = count_list (map sub_team (submissions d)) (team_id t) \<and>
   ((\<forall>t' u. x \<noteq> RemoveMember t' u) \<longrightarrow>
      next_level_index d t \<le> next_level_index (exec h d x) t) \<and>
   (team_id t' \<noteq> team_id t \<or> \<not> list_all (\<lambda>m. tm_user m = u) (members_of d t') \<longrightarrow>
      next_level_index (remove_member d t' u) t = next_level_index d t) \<and>
   (list_all (\<lambda>m. tm_user m = u) (members_of d t) \<longrightarrow>
      next_level_index (remove_member d t u) t = 0) \<and>
   (d = run h empty_db ops \<and> team_id t \<in> set (map team_id (teams (run h d ops'))) \<longrightarrow>
      next_level_index d t \<le> next_level_index (run h d ops') t)"
proof -
  have "length (filter (\<lambda>s. sub_team s = k) ss) = count_list (map sub_team ss) k"
    for k and ss :: "submission list"
    by (induction ss) auto
  then have count: "next_level_index d t = count_list (map sub_team (submissions d)) (team_id t)"
    by (simp add: next_level_index_def submissions_of_def)
  have step: "(\<forall>t' u. x \<noteq> RemoveMember t' u) \<longrightarrow>
      next_level_index d t \<le> next_level_index (exec h d x) t"
    by (simp add: next_level_index_exec_no_remove)
  have kept: "team_id t' \<noteq> team_id t \<or> \<not> list_all (\<lambda>m. tm_user m = u) (members_of d t') \<longrightarrow>
      next_level_index (remove_member d t' u) t = next_level_index d t"
    using next_level_index_remove_member_kept by blast
  have reset: "list_all (\<lambda>m. tm_user m = u) (members_of d t) \<longrightarrow>
      next_level_index (remove_member d t u) t = 0"
    by (simp add: next_level_index_remove_member_last)
  have seq: "d = run h empty_db ops \<and> team_id t \<in> set (map team_id (teams (run h d ops'))) \<longrightarrow>
      next_level_index d t \<le> next_level_index (run h d ops') t"
    using team_in_run_next_level_index db_inv_reachable by blast
  from count step kept reset seq show ?thesis by blast
qed

text \<open>
  C2 at work: a correct answer raises the index from 0 to 1; one of two members leaves and
  the index stays 1; the only member leaves and the index falls to 0; a wrong and a
  correct answer in a row, after which the team is still there.
\<close>

theorem next_level_index_over_time_witness:
  "next_level_index one_level red = 0 \<and>
   next_level_index (exec rev one_level (SubmitAttempt red ''flag1'')) red = 1 \<and>
   next_level_index one_level red
     \<le> next_level_index (exec rev one_level (SubmitAttempt red ''flag1'')) red \<and>
   \<not> list_all (\<lambda>m. tm_user m = 11) (members_of duo_solved red) \<and>
   next_level_index duo_solved red = 1 \<and>
   next_level_index (remove_member duo_solved red 11) red = 1 \<and>
   list_all (\<lambda>m. tm_user m = 11) (members_of flag_captured red) \<and>
   next_level_index flag_captured red = 1 \<and>
   next_level_index (remove_member flag_captured red 11) red = 0 \<and>
   one_level = run rev empty_db
     [CreateLevel ''L1'' (encoded rev ''flag1''), CreateTeam ''red'', AddMember red 11] \<and>
   team_id red \<in> set (map team_id (teams
     (run rev one_level [SubmitAttempt red ''wrong'', SubmitAttempt red ''flag1'']))) \<and>
   next_level_index one_level red \<le> next_level_index
     (run rev one_level [SubmitAttempt red ''wrong'', SubmitAttempt red ''flag1'']) red"
proof -
  have z: "next_level_index one_level red = 0"
    by code_simp
  have o: "next_level_index (exec rev one_level (SubmitAttempt red ''flag1'')) red = 1"
    by code_simp
  have "\<forall>t' u. SubmitAttempt red ''flag1'' \<noteq> RemoveMember t' u"
    by simp
  with next_level_index_over_time [where d = one_level and t = red and h = rev
      and x = "SubmitAttempt red ''flag1''"]
  have a: "next_level_index one_level red
      \<le> next_level_index (exec rev one_level (SubmitAttempt red ''flag1'')) red"
    by blast
  have h2: "\<not> list_all (\<lambda>m. tm_user m = 11) (members_of duo_solved red)"
    by code_simp
  have d1: "next_level_index duo_solved red = 1"
    by code_simp
  from h2 next_level_index_over_time [where d = duo_solved and t = red and t' = red and u = 11]
  have "next_level_index (remove_member duo_solved red 11) red = next_level_index duo_solved red"
    by blast
  with d1 have b: "next_level_index (remove_member duo_solved red 11) red = 1"
    by simp
  have h3: "list_all (\<lambda>m. tm_user m = 11) (members_of flag_captured red)"
    by code_simp
  have f1: "next_level_index flag_captured red = 1"
    by code_simp
  from h3 next_level_index_over_time [where d = flag_captured and t = red and u = 11]
  have c: "next_level_index (remove_member flag_captured red 11) red = 0"
    by blast
  have r: "one_level = run rev empty_db
     [CreateLevel ''L1'' (encoded rev ''flag1''), CreateTeam ''red'', AddMember red 11]"
    by (rule one_level_def)
  have h4: "team_id red \<in> set (map team_id (teams
     (run rev one_level [SubmitAttempt red ''wrong'', SubmitAttempt red ''flag1''])))"
    by code_simp
  from r h4 next_level_index_over_time [where d = one_level and t = red and h = rev
      and ops = "[CreateLevel ''L1'' (encoded rev ''flag1''), CreateTeam ''red'', AddMember red 11]"
      and ops' = "[SubmitAttempt red ''wrong'', SubmitAttempt red ''flag1'']"]
  have e: "next_level_index one_level red \<le> next_level_index
     (run rev one_level [SubmitAttempt red ''wrong'', SubmitAttempt red ''flag1'']) red"
    by blast
  from z o a h2 d1 b h3 f1 c r h4 e show ?thesis by blast
qed

text \<open>
  Claim C2 as it was stated fails when the last member of a team leaves: the submission
  of the team is removed by the cascade, and the index goes from 1 to 0.
\<close>

theorem next_level_index_decreases_counterexample:
  "submissions flag_captured = [\<lparr>sub_id = 1, sub_team = 1, sub_level = 1\<rparr>] \<and>
   next_level_index flag_captured red = 1 \<and>
   submissions (exec rev flag_captured (RemoveMember red 11)) = [] \<and>
   next_level_index (exec rev flag_captured (RemoveMember red 11)) red = 0"
  by code_simp

end
